theory Spec2Isabelle
  imports Complex_Main "HOL-Library.Char_ord"
begin

section \<open>The reader of parse.c\<close>

text \<open>
  A shallow embedding of \<^verbatim>\<open>src/parse.c\<close>: the incremental reader that turns a byte
  stream into one literal value, driven by an explicit stack of parse frames.

  Conventions of the embedding.
  \<^item> A byte (\<^verbatim>\<open>uint8_t\<close>, \<^verbatim>\<open>char\<close>) is a \<^typ>\<open>char\<close>; a byte range, a buffer's
    contents and a C string (without its terminating NUL) are \<^typ>\<open>string\<close>.
  \<^item> The frame array \<^verbatim>\<open>p->data\<close> is a list of slots; a pointer into it is an index.
    A slot is \<open>None\<close> until the parser has written a frame there.
  \<^item> Functions whose C behaviour can be undefined (a read through \<^verbatim>\<open>NULL\<close>, of a
    slot never written, of a union member the frame does not hold, or outside the
    array) return an \<open>option\<close>, and \<open>None\<close> is that outcome.
  \<^item> Parse errors are what they are in C: the fields \<^verbatim>\<open>error\<close> and \<^verbatim>\<open>status\<close>.
  \<^item> \<^verbatim>\<open>double\<close> arithmetic is idealised as exact arithmetic on \<^typ>\<open>rat\<close>
    (no rounding, no infinities), and \<^verbatim>\<open>int\<close>, \<^verbatim>\<open>uint32_t\<close> as \<^typ>\<open>int\<close>,
    \<^typ>\<open>nat\<close> without wrap-around. The control flow of the reader depends on
    neither.
\<close>

subsection \<open>Values\<close>

type_synonym GstNumber = rat

datatype GstValue =
    GST_NIL
  | GST_BOOLEAN bool
  | GST_NUMBER GstNumber
  | GST_STRING string
  | GST_ARRAY "GstValue list"

subsection \<open>Parse frames and the parser\<close>

datatype ParseType = PTYPE_ROOT | PTYPE_FORM | PTYPE_STRING | PTYPE_TOKEN

datatype StringState =
    STRING_STATE_BASE
  | STRING_STATE_ESCAPE
  | STRING_STATE_ESCAPE_UNICODE
  | STRING_STATE_ESCAPE_HEX

text \<open>
  \<^verbatim>\<open>struct GstParseState\<close>: the tag and the union member it selects. A form's
  \<^verbatim>\<open>endDelimiter\<close> is \<open>None\<close> as long as \<^verbatim>\<open>parser_push\<close> has not assigned it.
  Buffers and arrays are held by value: a frame is the only reference to its
  accumulator until the frame is popped, and no accumulator is changed after that.
\<close>

datatype GstParseState =
    Root_frame
  | Form_frame "char option" "GstValue list"
  | String_frame string StringState
  | Token_frame string

fun frame_type :: "GstParseState \<Rightarrow> ParseType" where
  "frame_type Root_frame = PTYPE_ROOT"
| "frame_type (Form_frame d a) = PTYPE_FORM"
| "frame_type (String_frame b s) = PTYPE_STRING"
| "frame_type (Token_frame b) = PTYPE_TOKEN"

datatype GstParserStatus = GST_PARSER_PENDING | GST_PARSER_FULL | GST_PARSER_ERROR

text \<open>
  \<^verbatim>\<open>struct GstParser\<close> (declared in parse.h), by the fields parse.c uses;
  \<open>pvalue\<close> is \<^verbatim>\<open>p->value\<close>. The handle \<^verbatim>\<open>p->vm\<close> of the allocator is left out.
\<close>

record GstParser =
  data :: "GstParseState option list"
  count :: nat
  cap :: nat
  index :: nat
  error :: "string option"
  status :: GstParserStatus
  pvalue :: GstValue

subsection \<open>The allocator and the containers\<close>

text \<open>
  Modelled from the spec: \<^verbatim>\<open>gst_alloc\<close> (vm.h) is not in the repository's sources here.
  It hands out fresh memory, which holds no frame the parser wrote. The model counts
  its argument in frame slots.
\<close>

definition gst_alloc :: "nat \<Rightarrow> GstParseState option list" where
  "gst_alloc n = replicate n None"

text \<open>
  Modelled from the spec: the growable byte buffer and value sequence of ds.h and the
  string constructors of value.h (section 6 of the spec: allocate a buffer, append a byte,
  convert a finished buffer into an immutable string, allocate a sequence, append a
  value, construct a symbol string constant). The capacity argument has no effect on
  the contents.
\<close>

definition gst_buffer :: "nat \<Rightarrow> string" where
  "gst_buffer capacity = []"

definition gst_buffer_push :: "string \<Rightarrow> char \<Rightarrow> string" where
  "gst_buffer_push buf c = buf @ [c]"

definition gst_buffer_to_string :: "string \<Rightarrow> string" where
  "gst_buffer_to_string buf = buf"

definition gst_array :: "nat \<Rightarrow> GstValue list" where
  "gst_array capacity = []"

definition gst_array_push :: "GstValue list \<Rightarrow> GstValue \<Rightarrow> GstValue list" where
  "gst_array_push a x = a @ [x]"

definition gst_load_cstring :: "string \<Rightarrow> GstValue" where
  "gst_load_cstring s = GST_STRING s"

subsection \<open>The parse stack\<close>

definition UNEXPECTED_CLOSING_DELIM :: string where
  "UNEXPECTED_CLOSING_DELIM = ''Unexpected closing delimiter''"

definition p_error :: "GstParser \<Rightarrow> string \<Rightarrow> GstParser" where
  "p_error p e = p\<lparr>error := Some e, status := GST_PARSER_ERROR\<rparr>"

text \<open>Reading and writing the frame a pointer \<^verbatim>\<open>p->data + i\<close> points to.\<close>

definition frame_at :: "GstParser \<Rightarrow> nat \<Rightarrow> GstParseState option" where
  "frame_at p i = (if i < length (data p) then data p ! i else None)"

definition frame_set :: "GstParser \<Rightarrow> nat \<Rightarrow> GstParseState \<Rightarrow> GstParser option" where
  "frame_set p i f =
     (if i < length (data p) then Some (p\<lparr>data := (data p)[i := Some f]\<rparr>) else None)"

text \<open>\<^verbatim>\<open>parser_peek\<close> and \<^verbatim>\<open>parser_pop\<close> return a pointer, \<open>None\<close> for \<^verbatim>\<open>NULL\<close>.\<close>

definition parser_peek :: "GstParser \<Rightarrow> GstParser \<times> nat option" where
  "parser_peek p =
     (if count p = 0 then (p_error p ''parser stack underflow'', None)
      else (p, Some (count p - 1)))"

definition parser_pop :: "GstParser \<Rightarrow> GstParser \<times> nat option" where
  "parser_pop p =
     (if count p = 0 then (p_error p ''parser stack underflow'', None)
      else (p\<lparr>count := count p - 1\<rparr>, Some (count p - 1)))"

text \<open>
  The frame \<^verbatim>\<open>parser_push\<close> writes for a form: a new array, the closing delimiter
  and the sentinel by the three \<^verbatim>\<open>if\<close>s on the triggering byte.
\<close>

definition new_form :: "char \<Rightarrow> GstParseState" where
  "new_form character =
     (let a0 = gst_array 10;
          d1 = (if character = CHR ''('' then Some (CHR '')'') else None);
          d2 = (if character = CHR ''['' then Some (CHR '']'') else d1);
          a2 = (if character = CHR ''[''
                then gst_array_push a0 (gst_load_cstring ''array'') else a0);
          d3 = (if character = CHR ''{'' then Some (CHR ''}'') else d2);
          a3 = (if character = CHR ''{''
                then gst_array_push a2 (gst_load_cstring ''obj'') else a2)
      in Form_frame d3 a3)"

text \<open>
  \<^verbatim>\<open>parser_push\<close>. When \<^verbatim>\<open>count >= cap\<close> the C code replaces \<^verbatim>\<open>p->data\<close> by
  \<^verbatim>\<open>gst_alloc(p->vm, newCap)\<close> and copies nothing. (It also asks for \<^verbatim>\<open>newCap\<close>
  bytes, not frames; the model grants \<^verbatim>\<open>newCap\<close> slots.)
\<close>

definition parser_push :: "GstParser \<Rightarrow> ParseType \<Rightarrow> char \<Rightarrow> GstParser option" where
  "parser_push p ptype character =
     (let p1 = (if count p \<ge> cap p
                then (let newCap = 2 * count p
                      in p\<lparr>data := gst_alloc newCap, cap := newCap\<rparr>)
                else p);
          p2 = p1\<lparr>count := count p1 + 1\<rparr>
      in case parser_peek p2 of
           (p3, None) \<Rightarrow> Some p3
         | (p3, Some top') \<Rightarrow>
             frame_set p3 top'
               (case ptype of
                  PTYPE_ROOT \<Rightarrow> Root_frame
                | PTYPE_STRING \<Rightarrow> String_frame (gst_buffer 10) STRING_STATE_BASE
                | PTYPE_TOKEN \<Rightarrow> Token_frame (gst_buffer 10)
                | PTYPE_FORM \<Rightarrow> new_form character))"

definition parser_append :: "GstParser \<Rightarrow> GstValue \<Rightarrow> GstParser option" where
  "parser_append p x =
     (case parser_peek p of
        (p1, None) \<Rightarrow> Some p1
      | (p1, Some top') \<Rightarrow>
          (case frame_at p1 top' of
             None \<Rightarrow> None
           | Some Root_frame \<Rightarrow> Some (p1\<lparr>pvalue := x, status := GST_PARSER_FULL\<rparr>)
           | Some (Form_frame d a) \<Rightarrow> frame_set p1 top' (Form_frame d (gst_array_push a x))
           | Some _ \<Rightarrow> Some (p_error p1 ''Expected container type.'')))"

subsection \<open>Character classes\<close>

definition is_whitespace :: "char \<Rightarrow> bool" where
  "is_whitespace c =
     (c = CHR '' '' \<or> c = CHR 0x09 \<or> c = CHR 0x0A \<or> c = CHR 0x0D \<or> c = CHR 0x00
      \<or> c = CHR '','')"

definition is_symbol_char :: "char \<Rightarrow> bool" where
  "is_symbol_char c =
     (if c \<ge> CHR ''a'' \<and> c \<le> CHR ''z'' then True
      else if c \<ge> CHR ''A'' \<and> c \<le> CHR ''Z'' then True
      else if c \<ge> CHR ''0'' \<and> c \<le> CHR '':'' then True
      else if c \<ge> CHR ''<'' \<and> c \<le> CHR ''@'' then True
      else if c \<ge> CHR ''*'' \<and> c \<le> CHR ''/'' then True
      else if c \<ge> CHR ''#'' \<and> c \<le> CHR ''&'' then True
      else if c = CHR ''_'' then True
      else if c = CHR ''^'' then True
      else if c = CHR ''!'' then True
      else False)"

subsection \<open>Numbers\<close>

text \<open>
  The \<^verbatim>\<open>while\<close> loop of \<^verbatim>\<open>exp10\<close>. It is entered with \<^verbatim>\<open>currentPower = 1\<close> and only
  doubles it, so \<open>0 < currentPower\<close> holds whenever the C condition is evaluated; the
  conjunct is written out because HOL needs the recursion to end from every state
  (\<open>exp10_loop_as_written\<close> is the loop without it).
\<close>

function exp10_loop :: "GstNumber \<Rightarrow> int \<Rightarrow> int \<Rightarrow> GstNumber \<times> int" where
  "exp10_loop result currentPower power' =
     (if 0 < currentPower \<and> currentPower * 2 \<le> power'
      then exp10_loop (result * result) (currentPower * 2) power'
      else (result, currentPower))"
  by pat_completeness auto
termination
  by (relation "measure (\<lambda>(result, currentPower, power'). nat (power' - currentPower))") auto

lemma exp10_loop_as_written:
  "0 < currentPower \<Longrightarrow>
   exp10_loop result currentPower power' =
     (if currentPower * 2 \<le> power'
      then exp10_loop (result * result) (currentPower * 2) power'
      else (result, currentPower))"
  by simp

lemma exp10_loop_bounds:
  "0 < cp \<Longrightarrow> cp \<le> n \<Longrightarrow> exp10_loop r cp n = (r', cp') \<Longrightarrow> cp \<le> cp' \<and> cp' \<le> n"
proof (induction r cp n rule: exp10_loop.induct)
  case (1 result currentPower power')
  show ?case
  proof (cases "currentPower * 2 \<le> power'")
    case True
    with "1.prems" have "exp10_loop (result * result) (currentPower * 2) power' = (r', cp')"
      by simp
    with "1.IH" [of] True "1.prems" have "currentPower * 2 \<le> cp' \<and> cp' \<le> power'"
      by simp
    with "1.prems" show ?thesis by simp
  next
    case False
    with "1.prems" show ?thesis by simp
  qed
qed

text \<open>
  \<^verbatim>\<open>exp10\<close>: an integer power of ten, by repeated squaring and recursion on the
  rest of the exponent.
\<close>

function exp10 :: "int \<Rightarrow> GstNumber" where
  "exp10 power' =
     (if power' = 0 then 1
      else if power' > 0 then
        (case exp10_loop 10 1 power' of
           (result, currentPower) \<Rightarrow> result * exp10 (power' - currentPower))
      else 1 / exp10 (- power'))"
  by pat_completeness auto
termination
proof (relation "measure (\<lambda>n. if n < 0 then 2 * nat (- n) + 1 else 2 * nat n)")
  show "wf (measure (\<lambda>n::int. if n < 0 then 2 * nat (- n) + 1 else 2 * nat n))"
    by simp
next
  fix power' :: int and x :: GstNumber and y :: int
  assume "power' \<noteq> 0" "0 < power'" "(x, y) = exp10_loop 10 1 power'"
  then have "1 \<le> y \<and> y \<le> power'"
    using exp10_loop_bounds [of 1 power' 10 x y] by simp
  then show "(power' - y, power')
      \<in> measure (\<lambda>n. if n < 0 then 2 * nat (- n) + 1 else 2 * nat n)"
    by simp
next
  fix power' :: int
  assume "power' \<noteq> 0" "\<not> 0 < power'"
  then show "(- power', power') \<in> measure (\<lambda>n. if n < 0 then 2 * nat (- n) + 1 else 2 * nat n)"
    by simp
qed

text \<open>The conversion of a \<^verbatim>\<open>double\<close> to \<^verbatim>\<open>int\<close> at the call \<^verbatim>\<open>exp10(exp)\<close>: towards zero.\<close>

definition double_to_int :: "GstNumber \<Rightarrow> int" where
  "double_to_int x = (if x < 0 then - \<lfloor>- x\<rfloor> else \<lfloor>x\<rfloor>)"

text \<open>
  \<^verbatim>\<open>read_number\<close> over the byte range \<^verbatim>\<open>[string, end)\<close>; \<open>None\<close> is the return value 0,
  \<open>Some x\<close> is 1 with \<^verbatim>\<open>*ret = x\<close>. \<open>read_number_loop\<close> is its \<^verbatim>\<open>while\<close> loop, which
  yields \<^verbatim>\<open>accum\<close> and \<^verbatim>\<open>exp\<close>. On an empty range the C code looks at \<^verbatim>\<open>*string\<close>
  before it tests \<^verbatim>\<open>string >= end\<close>, and returns 0 whatever that byte is.
\<close>

function read_number :: "string \<Rightarrow> bool \<Rightarrow> GstNumber option"
  and read_number_loop ::
    "string \<Rightarrow> bool \<Rightarrow> GstNumber \<Rightarrow> GstNumber \<Rightarrow> GstNumber \<Rightarrow> (GstNumber \<times> GstNumber) option"
where
  "read_number [] forceInt = None"
| "read_number (c # cs) forceInt =
     (if c = CHR ''-'' then
        (if cs = [] then None
         else case read_number_loop cs forceInt 0 1 1 of
                None \<Rightarrow> None
              | Some (accum, exp') \<Rightarrow> Some (accum * (- 1) * exp'))
      else if c = CHR ''+'' then
        (if cs = [] then None
         else case read_number_loop cs forceInt 0 1 1 of
                None \<Rightarrow> None
              | Some (accum, exp') \<Rightarrow> Some (accum * 1 * exp'))
      else case read_number_loop (c # cs) forceInt 0 1 1 of
             None \<Rightarrow> None
           | Some (accum, exp') \<Rightarrow> Some (accum * 1 * exp'))"
| "read_number_loop [] forceInt accum exp' place = Some (accum, exp')"
| "read_number_loop (c # cs) forceInt accum exp' place =
     (if c = CHR ''.'' \<and> \<not> forceInt then
        read_number_loop cs forceInt accum exp' (1 / 10)
      else if \<not> forceInt \<and> (c = CHR ''e'' \<or> c = CHR ''E'') then
        (if cs = [] then None
         else case read_number cs True of
                None \<Rightarrow> None
              | Some e \<Rightarrow> Some (accum, exp10 (double_to_int e)))
      else
        (let x = (of_char c :: int)
         in if x < of_char (CHR ''0'') \<or> x > of_char (CHR ''9'') then None
            else
              (let x = x - of_char (CHR ''0'')
               in if place < 1
                  then read_number_loop cs forceInt (accum + of_int x * place) exp'
                         (place * (1 / 10))
                  else read_number_loop cs forceInt (accum * 10 + of_int x) exp' place)))"
  by pat_completeness auto
termination
  by (relation "measure (\<lambda>a. case a of Inl (s, f) \<Rightarrow> 2 * length s + 1
                                       | Inr (s, f, x) \<Rightarrow> 2 * length s)") auto

text \<open>
  \<^verbatim>\<open>check_str_const\<close>: \<open>ref\<close> is the C string constant (a NUL in the list ends it, as
  the end of the list does), the second argument the range \<^verbatim>\<open>[start, end)\<close>.
\<close>

fun check_str_const :: "string \<Rightarrow> string \<Rightarrow> bool" where
  "check_str_const [] start = (start = [])"
| "check_str_const (r # ref) [] = (r = CHR 0x00)"
| "check_str_const (r # ref) (s # start) =
     (if r = CHR 0x00 then False
      else if r \<noteq> s then False
      else check_str_const ref start)"

text \<open>
  \<^verbatim>\<open>build_token\<close> returns the value and, through \<^verbatim>\<open>p_error\<close>, may change the parser.
  \<^verbatim>\<open>buf->data[0]\<close> of an empty buffer is a byte the parser never wrote; the model takes
  it not to be a digit. (A token frame receives its first byte in the call of
  \<^verbatim>\<open>dispatch_char\<close> that pushes it.)
\<close>

definition build_token :: "GstParser \<Rightarrow> string \<Rightarrow> GstParser \<times> GstValue" where
  "build_token p buf =
     (case read_number buf False of
        Some number \<Rightarrow> (p, GST_NUMBER number)
      | None \<Rightarrow>
          if check_str_const ''nil'' buf then (p, GST_NIL)
          else if check_str_const ''false'' buf then (p, GST_BOOLEAN False)
          else if check_str_const ''true'' buf then (p, GST_BOOLEAN True)
          else if (case buf of [] \<Rightarrow> False | b # bs \<Rightarrow> b \<ge> CHR ''0'' \<and> b \<le> CHR ''9'')
          then (p_error p ''Symbols cannot start with digits.'', GST_NIL)
          else (p, GST_STRING (gst_buffer_to_string buf)))"

subsection \<open>The frame handlers\<close>

text \<open>
  Each handler returns the parser and its C return value (true: the byte is consumed).
  \<^verbatim>\<open>dispatch_char\<close> calls a handler only on a top frame of the handler's type; on any
  other stack the handler reads a union member the frame does not hold.
\<close>

definition token_state :: "GstParser \<Rightarrow> char \<Rightarrow> (GstParser \<times> bool) option" where
  "token_state p c =
     (case parser_peek p of
        (p1, None) \<Rightarrow> None
      | (p1, Some top') \<Rightarrow>
          (case frame_at p1 top' of
             Some (Token_frame buf) \<Rightarrow>
               if is_whitespace c \<or> c = CHR '')'' \<or> c = CHR '']'' \<or> c = CHR ''}'' then
                 (case parser_pop p1 of
                    (p2, popped) \<Rightarrow>
                      (case build_token p2 buf of
                         (p3, x) \<Rightarrow>
                           (case parser_append p3 x of
                              None \<Rightarrow> None
                            | Some p4 \<Rightarrow>
                                Some (p4, \<not> (c = CHR '')'' \<or> c = CHR '']'' \<or> c = CHR ''}'')))))
               else if is_symbol_char c then
                 (case frame_set p1 top' (Token_frame (gst_buffer_push buf c)) of
                    None \<Rightarrow> None
                  | Some p2 \<Rightarrow> Some (p2, True))
               else Some (p_error p1 ''Expected symbol character.'', True)
           | _ \<Rightarrow> None))"

text \<open>The inner \<^verbatim>\<open>switch\<close> of \<^verbatim>\<open>string_state\<close>: the byte an escape stands for.\<close>

definition escape_byte :: "char \<Rightarrow> char option" where
  "escape_byte c =
     (if c = CHR ''n'' then Some (CHR 0x0A)
      else if c = CHR ''r'' then Some (CHR 0x0D)
      else if c = CHR ''t'' then Some (CHR 0x09)
      else if c = CHR ''f'' then Some (CHR 0x0C)
      else if c = CHR ''0'' then Some (CHR 0x00)
      else if c = CHR 0x22 then Some (CHR 0x22)
      else if c = CHR 0x27 then Some (CHR 0x27)
      else if c = CHR ''z'' then Some (CHR 0x00)
      else None)"

definition string_state :: "GstParser \<Rightarrow> char \<Rightarrow> (GstParser \<times> bool) option" where
  "string_state p c =
     (case parser_peek p of
        (p1, None) \<Rightarrow> None
      | (p1, Some top') \<Rightarrow>
          (case frame_at p1 top' of
             Some (String_frame buf st) \<Rightarrow>
               (case st of
                  STRING_STATE_BASE \<Rightarrow>
                    if c = CHR 0x5C then
                      (case frame_set p1 top' (String_frame buf STRING_STATE_ESCAPE) of
                         None \<Rightarrow> None
                       | Some p2 \<Rightarrow> Some (p2, True))
                    else if c = CHR 0x22 then
                      (let x = GST_STRING (gst_buffer_to_string buf);
                           a0 = gst_array 2;
                           a1 = gst_array_push a0 (gst_load_cstring ''quote'');
                           a2 = gst_array_push a1 x
                       in case parser_pop p1 of
                            (p2, popped) \<Rightarrow>
                              (case parser_append p2 (GST_ARRAY a2) of
                                 None \<Rightarrow> None
                               | Some p3 \<Rightarrow> Some (p3, True)))
                    else
                      (case frame_set p1 top' (String_frame (gst_buffer_push buf c) st) of
                         None \<Rightarrow> None
                       | Some p2 \<Rightarrow> Some (p2, True))
                | STRING_STATE_ESCAPE \<Rightarrow>
                    (case escape_byte c of
                       None \<Rightarrow> Some (p_error p1 ''Unknown string escape sequence.'', True)
                     | Some next' \<Rightarrow>
                         (case frame_set p1 top'
                                 (String_frame (gst_buffer_push buf next') STRING_STATE_BASE) of
                            None \<Rightarrow> None
                          | Some p2 \<Rightarrow> Some (p2, True)))
                | STRING_STATE_ESCAPE_HEX \<Rightarrow> Some (p1, True)
                | STRING_STATE_ESCAPE_UNICODE \<Rightarrow> Some (p1, True))
           | _ \<Rightarrow> None))"

definition root_state :: "GstParser \<Rightarrow> char \<Rightarrow> (GstParser \<times> bool) option" where
  "root_state p c =
     (if c = CHR '']'' \<or> c = CHR '')'' \<or> c = CHR ''}'' then
        Some (p_error p UNEXPECTED_CLOSING_DELIM, True)
      else if c = CHR ''('' \<or> c = CHR ''['' \<or> c = CHR ''{'' then
        (case parser_push p PTYPE_FORM c of None \<Rightarrow> None | Some p1 \<Rightarrow> Some (p1, True))
      else if c = CHR 0x22 then
        (case parser_push p PTYPE_STRING c of None \<Rightarrow> None | Some p1 \<Rightarrow> Some (p1, True))
      else if is_whitespace c then Some (p, True)
      else if is_symbol_char c then
        (case parser_push p PTYPE_TOKEN c of None \<Rightarrow> None | Some p1 \<Rightarrow> Some (p1, False))
      else Some (p_error p ''Unexpected character.'', True))"

definition form_state :: "GstParser \<Rightarrow> char \<Rightarrow> (GstParser \<times> bool) option" where
  "form_state p c =
     (case parser_peek p of
        (p1, None) \<Rightarrow> None
      | (p1, Some top') \<Rightarrow>
          (case frame_at p1 top' of
             Some (Form_frame None a) \<Rightarrow> None
           | Some (Form_frame (Some endDelimiter) a) \<Rightarrow>
               if c = endDelimiter then
                 (let x = GST_ARRAY a
                  in case parser_pop p1 of
                       (p2, popped) \<Rightarrow>
                         (case parser_append p2 x of
                            None \<Rightarrow> None
                          | Some p3 \<Rightarrow> Some (p3, True)))
               else root_state p1 c
           | _ \<Rightarrow> None))"

subsection \<open>The dispatch driver\<close>

text \<open>
  Two notions used to state facts about the stack: a closing delimiter, and the frame
  \<^verbatim>\<open>parser_peek\<close> points to.
\<close>

definition is_closer :: "char \<Rightarrow> bool" where
  "is_closer c = (c = CHR '')'' \<or> c = CHR '']'' \<or> c = CHR ''}'')"

definition top_frame :: "GstParser \<Rightarrow> GstParseState option" where
  "top_frame p = (if count p = 0 then None else frame_at p (count p - 1))"

lemma parser_push_top:
  "parser_push p ty c = Some p2 \<Longrightarrow> ty \<noteq> PTYPE_FORM \<Longrightarrow>
   top_frame p2 = Some (case ty of PTYPE_ROOT \<Rightarrow> Root_frame
                | PTYPE_STRING \<Rightarrow> String_frame [] STRING_STATE_BASE
                | PTYPE_TOKEN \<Rightarrow> Token_frame []
                | PTYPE_FORM \<Rightarrow> new_form c)"
  by (auto simp: parser_push_def Let_def parser_peek_def frame_set_def top_frame_def
      frame_at_def gst_buffer_def split: if_splits ParseType.splits)

lemma root_state_not_done:
  "root_state p c = Some (p2, False) \<Longrightarrow> \<not> is_closer c \<and> top_frame p2 = Some (Token_frame [])"
  by (auto simp: root_state_def is_closer_def split: if_splits option.splits
      dest!: parser_push_top)

lemma form_state_not_done:
  "form_state p c = Some (p2, False) \<Longrightarrow> \<not> is_closer c \<and> top_frame p2 = Some (Token_frame [])"
  by (auto simp: form_state_def parser_peek_def Let_def parser_pop_def
      split: if_splits option.splits GstParseState.splits prod.splits
      dest!: root_state_not_done)

lemma parser_append_count: "parser_append p x = Some p2 \<Longrightarrow> count p2 = count p"
  by (auto simp: parser_append_def parser_peek_def p_error_def frame_set_def
      split: if_splits option.splits GstParseState.splits)

lemma build_token_count: "build_token p buf = (p2, x) \<Longrightarrow> count p2 = count p"
  by (auto simp: build_token_def p_error_def split: if_splits option.splits)

lemma token_state_not_done:
  "token_state p c = Some (p2, False) \<Longrightarrow> is_closer c \<and> count p2 < count p"
  by (auto simp: token_state_def parser_peek_def parser_pop_def is_closer_def
      split: if_splits option.splits GstParseState.splits prod.splits
      dest!: parser_append_count build_token_count)

lemma string_state_done: "string_state p c = Some (p2, d) \<Longrightarrow> d"
  by (auto simp: string_state_def parser_peek_def parser_pop_def Let_def
      split: if_splits option.splits GstParseState.splits prod.splits StringState.splits)

text \<open>
  The measure by which the loop of \<^verbatim>\<open>dispatch_char\<close> ends: nothing is left to do
  once the byte is consumed or the parser is no longer pending; a closing delimiter can
  only pop frames; any other byte is consumed at the latest by the token frame that was
  pushed for it.
\<close>

definition dispatch_measure :: "GstParser \<times> char \<times> bool \<Rightarrow> nat" where
  "dispatch_measure a =
     (case a of (p, c, d) \<Rightarrow>
        if d \<or> status p \<noteq> GST_PARSER_PENDING then 0
        else if is_closer c then count p + 1
        else (case top_frame p of Some (Token_frame b) \<Rightarrow> 1 | _ \<Rightarrow> 2))"

lemma dispatch_measure_step:
  assumes "status p = GST_PARSER_PENDING"
    and "parser_peek p = (p1, Some t)"
    and "frame_at p1 t = Some f"
    and "(case frame_type f of
            PTYPE_ROOT \<Rightarrow> root_state p1 c
          | PTYPE_TOKEN \<Rightarrow> token_state p1 c
          | PTYPE_FORM \<Rightarrow> form_state p1 c
          | PTYPE_STRING \<Rightarrow> string_state p1 c) = Some (p2, d2)"
  shows "dispatch_measure (p2, c, d2) < dispatch_measure (p, c, False)"
proof (cases "d2 \<or> status p2 \<noteq> GST_PARSER_PENDING")
  case True
  with assms(1) show ?thesis by (auto simp: dispatch_measure_def split: option.splits GstParseState.splits)
next
  case False
  then have d2: "d2 = False" and pend: "status p2 = GST_PARSER_PENDING" by auto
  from assms(2) have p1: "p1 = p" and t: "t = count p - 1" and pos: "0 < count p"
    by (auto simp: parser_peek_def split: if_splits)
  from assms(3) p1 t pos have top: "top_frame p = Some f" by (simp add: top_frame_def)
  show ?thesis
  proof (cases "frame_type f")
    case PTYPE_ROOT
    with assms(4) d2 p1 have "\<not> is_closer c \<and> top_frame p2 = Some (Token_frame [])"
      by (auto dest: root_state_not_done)
    moreover from PTYPE_ROOT top have "\<And>b. top_frame p \<noteq> Some (Token_frame b)" by auto
    ultimately show ?thesis using assms(1) pend d2
      by (auto simp: dispatch_measure_def split: option.splits GstParseState.splits)
  next
    case PTYPE_FORM
    with assms(4) d2 p1 have "\<not> is_closer c \<and> top_frame p2 = Some (Token_frame [])"
      by (auto dest: form_state_not_done)
    moreover from PTYPE_FORM top have "\<And>b. top_frame p \<noteq> Some (Token_frame b)" by auto
    ultimately show ?thesis using assms(1) pend d2
      by (auto simp: dispatch_measure_def split: option.splits GstParseState.splits)
  next
    case PTYPE_STRING
    with assms(4) d2 show ?thesis by (auto dest: string_state_done)
  next
    case PTYPE_TOKEN
    with assms(4) d2 p1 have "is_closer c \<and> count p2 < count p"
      by (auto dest: token_state_not_done)
    then show ?thesis using assms(1) pend d2 by (simp add: dispatch_measure_def)
  qed
qed

text \<open>
  The \<^verbatim>\<open>while\<close> loop of \<^verbatim>\<open>dispatch_char\<close>, with \<^verbatim>\<open>done\<close> as its state. It ends
  from every state: a handler that leaves the byte unconsumed has either pushed a
  token frame, which consumes the byte in the next round, or popped a frame on a
  closing delimiter.
\<close>

function dispatch_loop :: "GstParser \<Rightarrow> char \<Rightarrow> bool \<Rightarrow> (GstParser \<times> bool) option" where
  "dispatch_loop p c done' =
     (if \<not> done' \<and> status p = GST_PARSER_PENDING then
        (case parser_peek p of
           (p1, None) \<Rightarrow> None
         | (p1, Some top') \<Rightarrow>
             (case frame_at p1 top' of
                None \<Rightarrow> None
              | Some f \<Rightarrow>
                  (case (case frame_type f of
                           PTYPE_ROOT \<Rightarrow> root_state p1 c
                         | PTYPE_TOKEN \<Rightarrow> token_state p1 c
                         | PTYPE_FORM \<Rightarrow> form_state p1 c
                         | PTYPE_STRING \<Rightarrow> string_state p1 c) of
                     None \<Rightarrow> None
                   | Some (p2, done2) \<Rightarrow> dispatch_loop p2 c done2)))
      else Some (p, done'))"
  by pat_completeness auto

termination
proof (relation "measure dispatch_measure")
  show "wf (measure dispatch_measure)" by simp
next
  fix p c done' x y x2 x2a x2b xa ya
  assume "\<not> done' \<and> status p = GST_PARSER_PENDING" "(x, y) = parser_peek p"
    "y = Some x2" "frame_at x x2 = Some x2a"
    "(case frame_type x2a of PTYPE_ROOT \<Rightarrow> root_state x c
      | PTYPE_FORM \<Rightarrow> form_state x c | PTYPE_STRING \<Rightarrow> string_state x c
      | PTYPE_TOKEN \<Rightarrow> token_state x c) = Some x2b"
    "(xa, ya) = x2b"
  then have "dispatch_measure (xa, c, ya) < dispatch_measure (p, c, False)" and "done' = False"
    using dispatch_measure_step [of p x x2 x2a c xa ya] by (simp_all split: ParseType.splits)
  then show "((xa, c, ya), p, c, done') \<in> measure dispatch_measure" by simp
qed

definition dispatch_char :: "GstParser \<Rightarrow> char \<Rightarrow> (GstParser \<times> bool) option" where
  "dispatch_char p c =
     (case dispatch_loop p c False of
        None \<Rightarrow> None
      | Some (p1, done') \<Rightarrow> Some (p1\<lparr>index := index p1 + 1\<rparr>, \<not> done'))"

text \<open>
  \<^verbatim>\<open>gst_parse_cstring\<close>. The argument of the loop is the rest of the C string,
  \<^verbatim>\<open>string + bytesRead\<close>; the end of the list is the terminating NUL, and a NUL
  inside the list ends the C string there.
\<close>

fun parse_cstring_loop :: "GstParser \<Rightarrow> string \<Rightarrow> nat \<Rightarrow> (GstParser \<times> nat) option" where
  "parse_cstring_loop p [] bytesRead = Some (p, bytesRead)"
| "parse_cstring_loop p (c # cs) bytesRead =
     (if status p = GST_PARSER_PENDING \<and> c \<noteq> CHR 0x00 then
        (case dispatch_char p c of
           None \<Rightarrow> None
         | Some (p1, r) \<Rightarrow> parse_cstring_loop p1 cs (bytesRead + 1))
      else Some (p, bytesRead))"

definition gst_parse_cstring :: "GstParser \<Rightarrow> string \<Rightarrow> (GstParser \<times> nat) option" where
  "gst_parse_cstring p string = parse_cstring_loop (p\<lparr>status := GST_PARSER_PENDING\<rparr>) string 0"

text \<open>\<^verbatim>\<open>gst_parser\<close>: the initial parser, with the root frame pushed.\<close>

definition gst_parser :: "GstParser option" where
  "gst_parser =
     parser_push
       \<lparr>data = gst_alloc 10, count = 0, cap = 10, index = 0, error = None,
        status = GST_PARSER_PENDING, pvalue = GST_NIL\<rparr>
       PTYPE_ROOT (CHR '' '')"

subsection \<open>Notions used to state the properties\<close>

text \<open>
  The caller of the spec's lifecycle, feeding a byte sequence in chunks: one call of
  \<^verbatim>\<open>gst_parse_cstring\<close> per chunk, the next chunk only while the parser is still
  pending (a parser that reached Complete or Error is not fed further). It returns the
  final parser and the sum of the calls' byte counts.
\<close>

fun feed_chunks :: "GstParser \<Rightarrow> string list \<Rightarrow> (GstParser \<times> nat) option" where
  "feed_chunks p [] = Some (p, 0)"
| "feed_chunks p (chunk # chunks) =
     (case gst_parse_cstring p chunk of
        None \<Rightarrow> None
      | Some (p1, n) \<Rightarrow>
          if status p1 = GST_PARSER_PENDING then
            (case feed_chunks p1 chunks of
               None \<Rightarrow> None
             | Some (p2, m) \<Rightarrow> Some (p2, n + m))
          else Some (p1, n))"

text \<open>An ASCII digit, and a byte range without its optional leading sign.\<close>

definition is_digit :: "char \<Rightarrow> bool" where
  "is_digit c = (c \<ge> CHR ''0'' \<and> c \<le> CHR ''9'')"

definition after_sign :: "string \<Rightarrow> string" where
  "after_sign s =
     (case s of [] \<Rightarrow> [] | c # cs \<Rightarrow> if c = CHR ''-'' \<or> c = CHR ''+'' then cs else s)"

text \<open>
  Concrete parsers for the examples: a parser of capacity 10 holding the given frames,
  and the parser \<^verbatim>\<open>gst_parser\<close> initialises.
\<close>

definition parser_with :: "GstParseState list \<Rightarrow> GstParser" where
  "parser_with frames =
     \<lparr>data = map Some frames @ replicate (10 - length frames) None,
      count = length frames, cap = 10, index = 0, error = None,
      status = GST_PARSER_PENDING, pvalue = GST_NIL\<rparr>"

definition parser0 :: GstParser where
  "parser0 = parser_with [Root_frame]"

text \<open>
  The frame \<^verbatim>\<open>parser_push\<close> writes, with the allocator and the containers unfolded, and
  two parsers of the examples: the parser after nine opening parentheses, whose ten
  frames fill its capacity, and the parser the next push of a form makes of it.
\<close>

definition pushed_frame :: "ParseType \<Rightarrow> char \<Rightarrow> GstParseState" where
  "pushed_frame ptype character =
     (case ptype of
        PTYPE_ROOT \<Rightarrow> Root_frame
      | PTYPE_STRING \<Rightarrow> String_frame [] STRING_STATE_BASE
      | PTYPE_TOKEN \<Rightarrow> Token_frame []
      | PTYPE_FORM \<Rightarrow>
          if character = CHR ''('' then Form_frame (Some (CHR '')'')) []
          else if character = CHR ''['' then Form_frame (Some (CHR '']'')) [GST_STRING ''array'']
          else if character = CHR ''{'' then Form_frame (Some (CHR ''}'')) [GST_STRING ''obj'']
          else Form_frame None [])"

definition nine_open :: GstParser where
  "nine_open =
     (parser_with (Root_frame # replicate 9 (Form_frame (Some (CHR '')'')) [])))\<lparr>index := 9\<rparr>"

definition pushed_at_capacity :: GstParser where
  "pushed_at_capacity =
     nine_open
       \<lparr>data := replicate 10 None @ Some (Form_frame (Some (CHR '')'')) []) # replicate 9 None,
        count := 11, cap := 20\<rparr>"

text \<open>
  The shape of the stack between two bytes. A parser is \<open>open_ok\<close> when its live frames are
  the root frame at index 0 and, above it, form frames whose closing delimiter is set;
  it is \<open>leaf_ok\<close> when there is one more frame on top of these, a string or a token
  frame. The other predicates say what a handler returns on such a stack.
\<close>

definition is_open_form :: "GstParseState option \<Rightarrow> bool" where
  "is_open_form x = (case x of Some (Form_frame (Some d) a) \<Rightarrow> True | _ \<Rightarrow> False)"

definition is_leaf :: "GstParseState option \<Rightarrow> bool" where
  "is_leaf x =
     (case x of Some (String_frame b st) \<Rightarrow> True | Some (Token_frame b) \<Rightarrow> True | _ \<Rightarrow> False)"

definition frames_open :: "GstParseState option list \<Rightarrow> nat \<Rightarrow> bool" where
  "frames_open d n =
     (0 < n \<and> n \<le> length d \<and> d ! 0 = Some Root_frame
      \<and> list_all (\<lambda>i. is_open_form (d ! i)) [1..<n])"

definition open_ok :: "GstParser \<Rightarrow> bool" where
  "open_ok p = (cap p = length (data p) \<and> frames_open (data p) (count p))"

definition leaf_ok :: "GstParser \<Rightarrow> bool" where
  "leaf_ok p =
     (cap p = length (data p) \<and> 1 < count p \<and> count p \<le> cap p
      \<and> is_leaf (data p ! (count p - 1)) \<and> frames_open (data p) (count p - 1))"

definition stack_ok :: "GstParser \<Rightarrow> bool" where
  "stack_ok p = (open_ok p \<or> leaf_ok p)"

definition pushed_token :: "GstParser \<Rightarrow> char \<Rightarrow> GstParserStatus \<Rightarrow> bool" where
  "pushed_token p' c s =
     (leaf_ok p' \<and> top_frame p' = Some (Token_frame []) \<and> \<not> is_whitespace c
      \<and> \<not> is_closer c \<and> is_symbol_char c \<and> status p' = s)"

definition root_result :: "(GstParser \<times> bool) option \<Rightarrow> char \<Rightarrow> GstParserStatus \<Rightarrow> bool" where
  "root_result r c s =
     (case r of
        None \<Rightarrow> False
      | Some (p', d) \<Rightarrow> if d then stack_ok p' else pushed_token p' c s)"

definition done_result :: "(GstParser \<times> bool) option \<Rightarrow> bool" where
  "done_result r = (case r of None \<Rightarrow> False | Some (p', d) \<Rightarrow> d \<and> stack_ok p')"

definition token_result :: "(GstParser \<times> bool) option \<Rightarrow> char \<Rightarrow> nat \<Rightarrow> bool" where
  "token_result r c n =
     (case r of
        None \<Rightarrow> False
      | Some (p', d) \<Rightarrow>
          if d then stack_ok p' else is_closer c \<and> open_ok p' \<and> count p' < n)"

definition loop_result :: "(GstParser \<times> bool) option \<Rightarrow> bool" where
  "loop_result r = (case r of None \<Rightarrow> False | Some (p', d) \<Rightarrow> stack_ok p')"

text \<open>
  A run of the loop of \<^verbatim>\<open>gst_parse_cstring\<close> that dispatches no byte on a full frame
  array.
\<close>

fun below_capacity :: "GstParser \<Rightarrow> string \<Rightarrow> bool" where
  "below_capacity p [] = True"
| "below_capacity p (c # cs) =
     (if status p = GST_PARSER_PENDING \<and> c \<noteq> CHR 0x00 then
        count p < cap p
        \<and> (case dispatch_char p c of None \<Rightarrow> True | Some (p1, r) \<Rightarrow> below_capacity p1 cs)
      else True)"

section \<open>Properties\<close>

subsection \<open>The feed loop\<close>

lemma gst_parser_eq: "gst_parser = Some parser0"
  by (simp add: gst_parser_def parser0_def parser_with_def parser_push_def gst_alloc_def
      parser_peek_def frame_set_def Let_def numeral_eq_Suc)

lemma loop_not_pending:
  "status p \<noteq> GST_PARSER_PENDING \<Longrightarrow> parse_cstring_loop p s n = Some (p, n)"
  by (cases s) simp_all

lemma loop_append:
  "CHR 0x00 \<notin> set a \<Longrightarrow>
   parse_cstring_loop p (a @ b) n =
     (case parse_cstring_loop p a n of
        None \<Rightarrow> None
      | Some (p1, n1) \<Rightarrow>
          if status p1 = GST_PARSER_PENDING then parse_cstring_loop p1 b n1 else Some (p1, n1))"
proof (induction a arbitrary: p n)
  case Nil
  then show ?case by (simp add: loop_not_pending)
next
  case (Cons c a)
  then show ?case by (auto split: option.splits)
qed

lemma loop_shift:
  "parse_cstring_loop p s (n + k) =
     (case parse_cstring_loop p s n of None \<Rightarrow> None | Some (p1, m) \<Rightarrow> Some (p1, m + k))"
proof (induction s arbitrary: p n)
  case Nil
  then show ?case by simp
next
  case (Cons c s)
  show ?case
  proof (cases "status p = GST_PARSER_PENDING \<and> c \<noteq> CHR 0x00")
    case True
    show ?thesis
    proof (cases "dispatch_char p c")
      case None
      with True show ?thesis by simp
    next
      case (Some r)
      obtain p1 d where "r = (p1, d)" by (cases r)
      with True Some Cons [of p1 "Suc n"] show ?thesis by simp
    qed
  next
    case False
    then show ?thesis by auto
  qed
qed

lemma loop_from_zero:
  "parse_cstring_loop p s n =
     (case parse_cstring_loop p s 0 of None \<Rightarrow> None | Some (p1, m) \<Rightarrow> Some (p1, n + m))"
  using loop_shift [of p s 0 n] by (simp add: add.commute split: option.splits)

lemma pending_reset: "status p = GST_PARSER_PENDING \<Longrightarrow> p\<lparr>status := GST_PARSER_PENDING\<rparr> = p"
  by simp

lemma feed_chunks_concat:
  assumes "\<forall>chunk \<in> set chunks. CHR 0x00 \<notin> set chunk"
    and "status p = GST_PARSER_PENDING"
  shows "feed_chunks p chunks = gst_parse_cstring p (concat chunks)"
  using assms
proof (induction chunks arbitrary: p)
  case Nil
  then show ?case by (simp add: gst_parse_cstring_def)
next
  case (Cons chunk chunks)
  let ?q = "p\<lparr>status := GST_PARSER_PENDING\<rparr>"
  from Cons.prems have nul: "CHR 0x00 \<notin> set chunk" by simp
  show ?case
  proof (cases "parse_cstring_loop ?q chunk 0")
    case None
    with nul show ?thesis by (simp add: gst_parse_cstring_def loop_append)
  next
    case (Some r)
    obtain p1 n1 where r: "r = (p1, n1)" by (cases r)
    show ?thesis
    proof (cases "status p1 = GST_PARSER_PENDING")
      case True
      with Cons.IH [of p1] Cons.prems
      have ih: "feed_chunks p1 chunks = parse_cstring_loop p1 (concat chunks) 0"
        by (simp add: gst_parse_cstring_def pending_reset [OF True])
      from nul Some r True show ?thesis
        by (simp add: gst_parse_cstring_def loop_append ih
            loop_from_zero [of p1 "concat chunks" n1] split: option.splits)
    next
      case False
      with nul Some r show ?thesis by (simp add: gst_parse_cstring_def loop_append)
    qed
  qed
qed

lemma loop_takeWhile:
  "parse_cstring_loop p s n = parse_cstring_loop p (takeWhile (\<lambda>c. c \<noteq> CHR 0x00) s) n"
  by (induction s arbitrary: p n) (auto split: option.splits)

lemma loop_count:
  "parse_cstring_loop p s n = Some (p1, m) \<Longrightarrow> n \<le> m \<and> m \<le> n + length (takeWhile (\<lambda>c. c \<noteq> CHR 0x00) s)"
proof (induction s arbitrary: p n)
  case Nil
  then show ?case by simp
next
  case (Cons c s)
  then show ?case by (fastforce split: if_splits option.splits)
qed

subsection \<open>The numeric decoder and the token classifier\<close>

lemma of_char_int_nat: "(of_char c :: int) = int (of_char c)"
  by (simp add: of_char_def)

lemma digit_test: "((of_char c :: int) < 48 \<or> 57 < (of_char c :: int)) = (\<not> is_digit c)"
  unfolding is_digit_def less_eq_char_def of_char_int_nat by auto

lemma is_digit_simps: "\<not> is_digit (CHR ''.'')" "\<not> is_digit (CHR ''e'')" "\<not> is_digit (CHR ''E'')"
  "\<not> is_digit (CHR ''-'')" "\<not> is_digit (CHR ''+'')"
  by (simp_all add: is_digit_def)

lemma loop_Cons:
  "read_number_loop (c # cs) forceInt accum e place =
     (if c = CHR ''.'' \<and> \<not> forceInt then read_number_loop cs forceInt accum e (1 / 10)
      else if \<not> forceInt \<and> (c = CHR ''e'' \<or> c = CHR ''E'') then
        (if cs = [] then None
         else case read_number cs True of
                None \<Rightarrow> None
              | Some x \<Rightarrow> Some (accum, exp10 (double_to_int x)))
      else if \<not> is_digit c then None
      else if place < 1
        then read_number_loop cs forceInt (accum + of_int (of_char c - 48) * place) e (place * (1 / 10))
        else read_number_loop cs forceInt (accum * 10 + of_int (of_char c - 48)) e place)"
  using digit_test [of c] by (simp add: Let_def)

lemma loop_nondigit_forced:
  "\<not> is_digit c \<Longrightarrow> read_number_loop (c # cs) True accum e place = None"
  by (simp add: loop_Cons del: read_number_loop.simps)

lemma read_number_forced_no_digits:
  "\<forall>c \<in> set s. \<not> is_digit c \<Longrightarrow> read_number s True = None"
  by (cases s; cases "tl s") (auto simp: loop_nondigit_forced simp del: read_number_loop.simps)

lemma loop_no_digits:
  "\<forall>c \<in> set s. \<not> is_digit c \<Longrightarrow>
   read_number_loop s False accum e place =
     (if \<forall>c \<in> set s. c = CHR ''.'' then Some (accum, e) else None)"
proof (induction s arbitrary: place)
  case Nil
  then show ?case by simp
next
  case (Cons c s)
  then have nd: "\<not> is_digit c" and rest: "\<forall>c \<in> set s. \<not> is_digit c" by simp_all
  show ?case
  proof (cases "c = CHR ''.''")
    case True
    with Cons.IH [OF rest] show ?thesis by (simp add: loop_Cons del: read_number_loop.simps)
  next
    case False
    with nd rest show ?thesis
      by (auto simp: loop_Cons read_number_forced_no_digits simp del: read_number_loop.simps)
  qed
qed

lemma read_number_digitless:
  assumes "\<forall>c \<in> set s. \<not> is_digit c"
  shows "read_number s False =
     (if after_sign s \<noteq> [] \<and> (\<forall>c \<in> set (after_sign s). c = CHR ''.'') then Some 0 else None)"
proof (cases s)
  case Nil
  then show ?thesis by (simp add: after_sign_def)
next
  case (Cons c cs)
  with assms have rest: "\<forall>c \<in> set cs. \<not> is_digit c" and all: "\<forall>x \<in> set (c # cs). \<not> is_digit x"
    by simp_all
  show ?thesis
  proof (cases "c = CHR ''-'' \<or> c = CHR ''+''")
    case True
    with Cons loop_no_digits [OF rest, of 0 1 1] show ?thesis
      by (auto simp: after_sign_def simp del: read_number_loop.simps)
  next
    case False
    with Cons loop_no_digits [OF all, of 0 1 1] show ?thesis
      by (simp add: after_sign_def del: read_number_loop.simps)
  qed
qed

lemma check_str_const_eq:
  "CHR 0x00 \<notin> set ref \<Longrightarrow> check_str_const ref s = (s = ref)"
proof (induction ref s rule: check_str_const.induct)
  case (1 start)
  then show ?case by auto
next
  case (2 r ref)
  then show ?case by auto
next
  case (3 r ref s start)
  then show ?case by (cases "r = s") auto
qed







lemma build_token_unfold:
  "build_token p buf =
      (case read_number buf False of
         Some number \<Rightarrow> (p, GST_NUMBER number)
       | None \<Rightarrow>
           if buf = ''nil'' then (p, GST_NIL)
           else if buf = ''false'' then (p, GST_BOOLEAN False)
           else if buf = ''true'' then (p, GST_BOOLEAN True)
           else if buf \<noteq> [] \<and> is_digit (hd buf)
           then (p_error p ''Symbols cannot start with digits.'', GST_NIL)
           else (p, GST_STRING buf))"
proof -
  have "(case buf of [] \<Rightarrow> False | b # bs \<Rightarrow> b \<ge> CHR ''0'' \<and> b \<le> CHR ''9'') =
      (buf \<noteq> [] \<and> is_digit (hd buf))"
    by (cases buf) (simp_all add: is_digit_def)
  then show ?thesis
    by (simp add: build_token_def check_str_const_eq gst_buffer_to_string_def
        del: read_number.simps split: option.splits)
qed

subsection \<open>Closing a string and a token\<close>

lemma top_frame_peek:
  "top_frame p = Some f \<Longrightarrow> parser_peek p = (p, Some (count p - 1)) \<and> frame_at p (count p - 1) = Some f \<and> 0 < count p"
  by (auto simp: top_frame_def parser_peek_def split: if_splits)

lemma top_frame_pop:
  "top_frame p = Some f \<Longrightarrow> parser_pop p = (p\<lparr>count := count p - 1\<rparr>, Some (count p - 1))"
  by (auto simp: top_frame_def parser_pop_def split: if_splits)

lemma string_state_close:
  assumes "top_frame p = Some (String_frame buf STRING_STATE_BASE)"
  shows "string_state p (CHR 0x22) =
     (case parser_append (p\<lparr>count := count p - 1\<rparr>)
             (GST_ARRAY [GST_STRING ''quote'', GST_STRING buf]) of
        None \<Rightarrow> None
      | Some p' \<Rightarrow> Some (p', True))"
  using top_frame_peek [OF assms] top_frame_pop [OF assms]
  by (simp add: string_state_def Let_def gst_array_def gst_array_push_def gst_load_cstring_def
      gst_buffer_to_string_def)

lemma append_form:
  assumes "top_frame p = Some (Form_frame d items)"
  shows "parser_append p x =
     Some (p\<lparr>data := (data p)[count p - 1 := Some (Form_frame d (items @ [x]))]\<rparr>)"
  using top_frame_peek [OF assms]
  by (auto simp: parser_append_def frame_set_def frame_at_def gst_array_push_def split: if_splits)

lemma append_root:
  assumes "top_frame p = Some Root_frame"
  shows "parser_append p x = Some (p\<lparr>pvalue := x, status := GST_PARSER_FULL\<rparr>)"
  using top_frame_peek [OF assms] by (simp add: parser_append_def)

lemma token_state_close:
  assumes "top_frame p = Some (Token_frame buf)"
    and "is_whitespace c \<or> is_closer c"
  shows "token_state p c =
     (case build_token (p\<lparr>count := count p - 1\<rparr>) buf of
        (p3, x) \<Rightarrow>
          (case parser_append p3 x of
             None \<Rightarrow> None
           | Some p4 \<Rightarrow> Some (p4, \<not> is_closer c)))"
  using top_frame_peek [OF assms(1)] top_frame_pop [OF assms(1)] assms(2)
  by (auto simp: token_state_def is_closer_def split: prod.splits option.splits)

lemma build_token_digit_error:
  assumes "read_number (b # bs) False = None" and "is_digit b"
  shows "build_token p (b # bs) = (p_error p ''Symbols cannot start with digits.'', GST_NIL)"
proof -
  from assms(2) have "b \<noteq> CHR ''n''" "b \<noteq> CHR ''f''" "b \<noteq> CHR ''t''"
    by (auto simp: is_digit_def)
  with assms show ?thesis
    by (simp add: build_token_def check_str_const_eq is_digit_def)
qed

lemma top_frame_p_error [simp]: "top_frame (p_error p e) = top_frame p"
  by (simp add: top_frame_def p_error_def frame_at_def)

subsection \<open>Pushing a frame\<close>

lemma parser_push_frame:
  "(case ptype of
      PTYPE_ROOT \<Rightarrow> Root_frame
    | PTYPE_STRING \<Rightarrow> String_frame (gst_buffer 10) STRING_STATE_BASE
    | PTYPE_TOKEN \<Rightarrow> Token_frame (gst_buffer 10)
    | PTYPE_FORM \<Rightarrow> new_form character) = pushed_frame ptype character"
  by (simp add: pushed_frame_def new_form_def gst_buffer_def gst_array_def gst_array_push_def
      gst_load_cstring_def Let_def split: ParseType.splits)

lemma push_below_cap_eq:
  assumes "count p < cap p" and "cap p \<le> length (data p)"
  shows "parser_push p ptype character =
     Some (p\<lparr>count := count p + 1,
              data := (data p)[count p := Some (pushed_frame ptype character)]\<rparr>)"
  using assms
  by (simp add: parser_push_def Let_def parser_peek_def frame_set_def parser_push_frame)

lemma push_at_cap_eq:
  assumes "cap p \<le> count p" and "0 < count p"
  shows "parser_push p ptype character =
     Some (p\<lparr>data := (replicate (2 * count p) None)[count p := Some (pushed_frame ptype character)],
              cap := 2 * count p, count := count p + 1\<rparr>)"
  using assms
  by (simp add: parser_push_def Let_def parser_peek_def frame_set_def parser_push_frame
      gst_alloc_def)

lemma parser_push_keeps_frames:
  assumes "count p < cap p" and "cap p \<le> length (data p)"
    and "parser_push p ptype character = Some p'"
  shows "count p' = count p + 1 \<and> top_frame p' = Some (pushed_frame ptype character)
    \<and> (\<forall>i < count p. frame_at p' i = frame_at p i)"
  using assms(3) assms(1,2) unfolding push_below_cap_eq [OF assms(1,2)]
  by (auto simp: top_frame_def frame_at_def)

lemma parser_push_loses_frames:
  assumes "cap p \<le> count p" and "0 < count p"
    and "parser_push p ptype character = Some p'"
  shows "count p' = count p + 1 \<and> top_frame p' = Some (pushed_frame ptype character)
    \<and> (\<forall>i < count p. frame_at p' i = None)"
  using assms(3) assms(1,2) unfolding push_at_cap_eq [OF assms(1,2)]
  by (auto simp: top_frame_def frame_at_def)

subsection \<open>The stack below capacity\<close>

text \<open>
  As long as a push does not have to grow the frame array, every byte leaves the stack
  in shape and no handler reads a frame that is not there.
\<close>

lemma frames_open_push:
  "frames_open d n \<Longrightarrow> n < length d \<Longrightarrow>
   frames_open (d[n := Some (Form_frame (Some e) a)]) (Suc n)"
  by (auto simp: frames_open_def list_all_iff is_open_form_def nth_list_update)

lemma frames_open_pop: "frames_open d n \<Longrightarrow> 1 < n \<Longrightarrow> frames_open d (n - 1)"
  by (auto simp: frames_open_def list_all_iff)

lemma frames_open_above: "frames_open d n \<Longrightarrow> n \<le> k \<Longrightarrow> frames_open (d[k := x]) n"
  by (auto simp: frames_open_def list_all_iff nth_list_update)

lemma frames_open_set_top:
  "frames_open d n \<Longrightarrow> 1 < n \<Longrightarrow> frames_open (d[n - 1 := Some (Form_frame (Some e) a)]) n"
  by (auto simp: frames_open_def list_all_iff is_open_form_def nth_list_update)

lemma frames_open_top:
  "frames_open d n \<Longrightarrow> 1 < n \<Longrightarrow> \<exists>e a. d ! (n - 1) = Some (Form_frame (Some e) a)"
proof -
  assume "frames_open d n" "1 < n"
  then have "is_open_form (d ! (n - 1))" by (auto simp: frames_open_def list_all_iff)
  then show ?thesis by (auto simp: is_open_form_def split: option.splits GstParseState.splits)
qed

text \<open>Appending a value to an open stack.\<close>

lemma open_ok_append:
  assumes "open_ok p"
  shows "\<exists>p'. parser_append p x = Some p' \<and> open_ok p' \<and> count p' = count p
           \<and> (status p' = status p \<or> status p' = GST_PARSER_FULL)"
proof (cases "count p = 1")
  case True
  with assms have "top_frame p = Some Root_frame"
    by (auto simp: open_ok_def top_frame_def frame_at_def frames_open_def)
  from append_root [OF this] assms show ?thesis by (simp add: open_ok_def)
next
  case False
  with assms have c: "1 < count p" and fo: "frames_open (data p) (count p)"
    and len: "count p \<le> length (data p)"
    by (auto simp: open_ok_def frames_open_def)
  from frames_open_top [OF fo c] obtain e a where "data p ! (count p - 1) = Some (Form_frame (Some e) a)"
    by auto
  with c len have top: "top_frame p = Some (Form_frame (Some e) a)"
    by (simp add: top_frame_def frame_at_def)
  from append_form [OF top] frames_open_set_top [OF fo c] assms show ?thesis
    by (simp add: open_ok_def)
qed

lemma push_form_ok:
  assumes "open_ok p" and "count p < cap p"
    and "c = CHR ''('' \<or> c = CHR ''['' \<or> c = CHR ''{''"
  shows "\<exists>p'. parser_push p PTYPE_FORM c = Some p' \<and> open_ok p' \<and> status p' = status p"
proof -
  from assms(1) have len: "cap p \<le> length (data p)" and fo: "frames_open (data p) (count p)"
    and cap: "cap p = length (data p)"
    by (simp_all add: open_ok_def)
  from assms(3) obtain e a where f: "pushed_frame PTYPE_FORM c = Form_frame (Some e) a"
    by (auto simp: pushed_frame_def)
  from assms(2) cap have "count p < length (data p)" by simp
  from frames_open_push [OF fo this] cap show ?thesis
    by (simp add: push_below_cap_eq [OF assms(2) len] f open_ok_def)
qed

lemma push_leaf_ok:
  assumes "open_ok p" and "count p < cap p"
    and "ptype = PTYPE_STRING \<or> ptype = PTYPE_TOKEN"
  shows "\<exists>p'. parser_push p ptype c = Some p' \<and> leaf_ok p'
           \<and> top_frame p' = Some (pushed_frame ptype c) \<and> status p' = status p"
proof -
  from assms(1) have len: "cap p \<le> length (data p)" and fo: "frames_open (data p) (count p)"
    and cap: "cap p = length (data p)" and pos: "0 < count p"
    by (simp_all add: open_ok_def frames_open_def)
  from assms(3) have leaf: "is_leaf (Some (pushed_frame ptype c))"
    by (auto simp: pushed_frame_def is_leaf_def)
  from frames_open_above [OF fo, of "count p"] have
    "frames_open ((data p)[count p := Some (pushed_frame ptype c)]) (count p)" by simp
  with assms(2) cap pos leaf show ?thesis
    by (simp add: push_below_cap_eq [OF assms(2) len] leaf_ok_def top_frame_def frame_at_def)
qed

lemma open_ok_stack_ok: "open_ok p \<Longrightarrow> stack_ok p"
  by (simp add: stack_ok_def)

lemma leaf_ok_stack_ok: "leaf_ok p \<Longrightarrow> stack_ok p"
  by (simp add: stack_ok_def)

lemma open_ok_p_error: "open_ok p \<Longrightarrow> open_ok (p_error p e)"
  by (simp add: open_ok_def p_error_def)

lemma leaf_ok_p_error: "leaf_ok p \<Longrightarrow> leaf_ok (p_error p e)"
  by (simp add: leaf_ok_def p_error_def)

lemma stack_ok_p_error: "stack_ok p \<Longrightarrow> stack_ok (p_error p e)"
  by (auto simp: stack_ok_def open_ok_p_error leaf_ok_p_error)

lemma root_state_ok:
  assumes "open_ok p" and "count p < cap p \<or> is_closer c"
  shows "root_result (root_state p c) c (status p)"
proof -
  consider (closer) "is_closer c"
    | (opener) "\<not> is_closer c" "c = CHR ''('' \<or> c = CHR ''['' \<or> c = CHR ''{''"
    | (quote) "\<not> is_closer c" "\<not> (c = CHR ''('' \<or> c = CHR ''['' \<or> c = CHR ''{'')" "c = CHR 0x22"
    | (space) "\<not> is_closer c" "\<not> (c = CHR ''('' \<or> c = CHR ''['' \<or> c = CHR ''{'')" "c \<noteq> CHR 0x22"
        "is_whitespace c"
    | (symbol) "\<not> is_closer c" "\<not> (c = CHR ''('' \<or> c = CHR ''['' \<or> c = CHR ''{'')" "c \<noteq> CHR 0x22"
        "\<not> is_whitespace c" "is_symbol_char c"
    | (other) "\<not> is_closer c" "\<not> (c = CHR ''('' \<or> c = CHR ''['' \<or> c = CHR ''{'')" "c \<noteq> CHR 0x22"
        "\<not> is_whitespace c" "\<not> is_symbol_char c"
    by blast
  then show ?thesis
  proof cases
    case closer
    then have "root_state p c = Some (p_error p UNEXPECTED_CLOSING_DELIM, True)"
      by (auto simp: root_state_def is_closer_def)
    with assms(1) show ?thesis by (simp add: root_result_def open_ok_p_error open_ok_stack_ok)
  next
    case opener
    with assms(2) have below: "count p < cap p" by simp
    from push_form_ok [OF assms(1) below opener(2)] obtain p' where
      "parser_push p PTYPE_FORM c = Some p'" "open_ok p'" by auto
    moreover from this opener have "root_state p c = Some (p', True)"
      by (auto simp: root_state_def is_closer_def)
    ultimately show ?thesis by (simp add: root_result_def open_ok_stack_ok)
  next
    case quote
    with assms(2) have below: "count p < cap p" by simp
    from push_leaf_ok [OF assms(1) below, of PTYPE_STRING c] obtain p' where
      "parser_push p PTYPE_STRING c = Some p'" "leaf_ok p'" by auto
    moreover from this quote have "root_state p c = Some (p', True)"
      by (auto simp: root_state_def is_closer_def)
    ultimately show ?thesis by (simp add: root_result_def leaf_ok_stack_ok)
  next
    case space
    then have "root_state p c = Some (p, True)"
      by (auto simp: root_state_def is_closer_def)
    with assms(1) show ?thesis by (simp add: root_result_def open_ok_stack_ok)
  next
    case symbol
    with assms(2) have below: "count p < cap p" by simp
    from push_leaf_ok [OF assms(1) below, of PTYPE_TOKEN c] obtain p' where
      p': "parser_push p PTYPE_TOKEN c = Some p'" "leaf_ok p'"
      "top_frame p' = Some (Token_frame [])" "status p' = status p"
      by (auto simp: pushed_frame_def)
    moreover from p'(1) symbol have "root_state p c = Some (p', False)"
      by (auto simp: root_state_def is_closer_def)
    ultimately show ?thesis using symbol by (simp add: root_result_def pushed_token_def)
  next
    case other
    then have "root_state p c = Some (p_error p ''Unexpected character.'', True)"
      by (auto simp: root_state_def is_closer_def)
    with assms(1) show ?thesis by (simp add: root_result_def open_ok_p_error open_ok_stack_ok)
  qed
qed

lemma open_ok_top_frame:
  assumes "open_ok p"
  shows "(count p = 1 \<and> top_frame p = Some Root_frame)
     \<or> (1 < count p \<and> (\<exists>e a. top_frame p = Some (Form_frame (Some e) a)))"
proof (cases "count p = 1")
  case True
  with assms show ?thesis
    by (auto simp: open_ok_def top_frame_def frame_at_def frames_open_def)
next
  case False
  with assms have c: "1 < count p" and fo: "frames_open (data p) (count p)"
    and len: "count p \<le> length (data p)"
    by (auto simp: open_ok_def frames_open_def)
  from frames_open_top [OF fo c] c len show ?thesis
    by (auto simp: top_frame_def frame_at_def)
qed

lemma form_state_ok:
  assumes "open_ok p" and "top_frame p = Some (Form_frame (Some e) a)"
    and "count p < cap p \<or> is_closer c"
  shows "root_result (form_state p c) c (status p)"
proof (cases "c = e")
  case True
  from assms(1,2) open_ok_top_frame [OF assms(1)] have c1: "1 < count p" by auto
  from assms(1) have fo: "frames_open (data p) (count p)" and cap: "cap p = length (data p)"
    by (simp_all add: open_ok_def)
  from frames_open_pop [OF fo c1] cap have "open_ok (p\<lparr>count := count p - 1\<rparr>)"
    by (simp add: open_ok_def)
  from open_ok_append [OF this, of "GST_ARRAY a"] obtain p' where
    app: "parser_append (p\<lparr>count := count p - 1\<rparr>) (GST_ARRAY a) = Some p'" and ok: "open_ok p'"
    by auto
  from True app top_frame_peek [OF assms(2)] top_frame_pop [OF assms(2)]
  have "form_state p c = Some (p', True)"
    by (simp add: form_state_def Let_def)
  with ok show ?thesis by (simp add: root_result_def open_ok_stack_ok)
next
  case False
  with top_frame_peek [OF assms(2)] have "form_state p c = root_state p c"
    by (simp add: form_state_def)
  with root_state_ok [OF assms(1,3)] show ?thesis by simp
qed

lemma leaf_ok_set_top:
  assumes "leaf_ok p" and "is_leaf (Some g)"
  shows "frame_set p (count p - 1) g = Some (p\<lparr>data := (data p)[count p - 1 := Some g]\<rparr>)"
    and "leaf_ok (p\<lparr>data := (data p)[count p - 1 := Some g]\<rparr>)"
proof -
  from assms(1) have len: "count p - 1 < length (data p)" and c: "1 < count p"
    and fo: "frames_open (data p) (count p - 1)"
    by (auto simp: leaf_ok_def)
  from len show "frame_set p (count p - 1) g = Some (p\<lparr>data := (data p)[count p - 1 := Some g]\<rparr>)"
    by (simp add: frame_set_def)
  from frames_open_above [OF fo, of "count p - 1" "Some g"] assms len
  show "leaf_ok (p\<lparr>data := (data p)[count p - 1 := Some g]\<rparr>)"
    by (simp add: leaf_ok_def)
qed

lemma leaf_ok_pop:
  assumes "leaf_ok p"
  shows "open_ok (p\<lparr>count := count p - 1\<rparr>)"
  using assms by (simp add: leaf_ok_def open_ok_def)

lemma leaf_ok_top: "leaf_ok p \<Longrightarrow> \<exists>f. top_frame p = Some f \<and> is_leaf (Some f)"
  by (auto simp: leaf_ok_def top_frame_def frame_at_def is_leaf_def split: option.splits)

lemma string_state_ok:
  assumes "leaf_ok p" and "top_frame p = Some (String_frame b st)"
  shows "done_result (string_state p c)"
proof -
  note peek = top_frame_peek [OF assms(2)]
  note pop = top_frame_pop [OF assms(2)]
  have leaf: "\<And>b' st'. is_leaf (Some (String_frame b' st'))" by (simp add: is_leaf_def)
  note set = leaf_ok_set_top [OF assms(1) leaf]
  from assms(1) have ok: "stack_ok p" by (rule leaf_ok_stack_ok)
  show ?thesis
  proof (cases st)
    case STRING_STATE_BASE
    show ?thesis
    proof (cases "c = CHR 0x22")
      case True
      from open_ok_append [OF leaf_ok_pop [OF assms(1)],
          of "GST_ARRAY [GST_STRING ''quote'', GST_STRING b]"]
      obtain p' where
        "parser_append (p\<lparr>count := count p - 1\<rparr>) (GST_ARRAY [GST_STRING ''quote'', GST_STRING b])
           = Some p'" "open_ok p'" by auto
      with True assms(2) STRING_STATE_BASE show ?thesis
        by (simp add: string_state_close done_result_def open_ok_stack_ok)
    next
      case False
      with STRING_STATE_BASE peek set show ?thesis
        by (simp add: string_state_def done_result_def leaf_ok_stack_ok)
    qed
  next
    case STRING_STATE_ESCAPE
    show ?thesis
    proof (cases "escape_byte c")
      case None
      with STRING_STATE_ESCAPE peek stack_ok_p_error [OF ok] show ?thesis
        by (simp add: string_state_def done_result_def)
    next
      case (Some next')
      with STRING_STATE_ESCAPE peek set show ?thesis
        by (simp add: string_state_def done_result_def leaf_ok_stack_ok)
    qed
  next
    case STRING_STATE_ESCAPE_UNICODE
    with peek ok show ?thesis by (simp add: string_state_def done_result_def)
  next
    case STRING_STATE_ESCAPE_HEX
    with peek ok show ?thesis by (simp add: string_state_def done_result_def)
  qed
qed

lemma build_token_fields:
  "build_token p buf = (p, snd (build_token p buf))
   \<or> build_token p buf = (p_error p ''Symbols cannot start with digits.'', snd (build_token p buf))"
  by (simp add: build_token_unfold del: read_number.simps split: option.splits)

lemma token_state_ok:
  assumes "leaf_ok p" and "top_frame p = Some (Token_frame b)"
  shows "token_result (token_state p c) c (count p)"
proof (cases "is_whitespace c \<or> is_closer c")
  case True
  let ?q = "p\<lparr>count := count p - 1\<rparr>"
  obtain q x where bt: "build_token ?q b = (q, x)" by (cases "build_token ?q b")
  with build_token_fields [of ?q b] have "q = ?q \<or> q = p_error ?q ''Symbols cannot start with digits.''"
    by auto
  moreover note leaf_ok_pop [OF assms(1)] open_ok_p_error [OF leaf_ok_pop [OF assms(1)]]
  ultimately have "open_ok q" and cq: "count q = count p - 1"
    by (auto simp: p_error_def)
  from open_ok_append [OF this(1), of x] obtain p' where
    "parser_append q x = Some p'" "open_ok p'" "count p' = count q" by auto
  moreover from assms(1) have "0 < count p" by (simp add: leaf_ok_def)
  ultimately show ?thesis
    using token_state_close [OF assms(2) True] bt cq
    by (simp add: token_result_def open_ok_stack_ok)
next
  case False
  have leaf: "\<And>b'. is_leaf (Some (Token_frame b'))" by (simp add: is_leaf_def)
  from False top_frame_peek [OF assms(2)] leaf_ok_set_top [OF assms(1) leaf]
    leaf_ok_p_error [OF assms(1)]
  show ?thesis
    by (simp add: token_state_def token_result_def is_closer_def leaf_ok_stack_ok)
qed

lemma dispatch_loop_stop:
  "d \<or> status p \<noteq> GST_PARSER_PENDING \<Longrightarrow> dispatch_loop p c d = Some (p, d)"
  by (subst dispatch_loop.simps) auto

lemma dispatch_loop_step:
  assumes "status p = GST_PARSER_PENDING" and "top_frame p = Some f"
  shows "dispatch_loop p c False =
     (case (case frame_type f of
              PTYPE_ROOT \<Rightarrow> root_state p c
            | PTYPE_TOKEN \<Rightarrow> token_state p c
            | PTYPE_FORM \<Rightarrow> form_state p c
            | PTYPE_STRING \<Rightarrow> string_state p c) of
        None \<Rightarrow> None
      | Some (p2, d2) \<Rightarrow> dispatch_loop p2 c d2)"
  using assms top_frame_peek [OF assms(2)]
  by (subst dispatch_loop.simps) (simp del: dispatch_loop.simps)

lemma loop_result_done:
  "done_result r \<Longrightarrow>
   loop_result (case r of None \<Rightarrow> None | Some (p2, d2) \<Rightarrow> dispatch_loop p2 c d2)"
  by (auto simp: done_result_def loop_result_def dispatch_loop_stop
      simp del: dispatch_loop.simps split: option.splits)

lemma loop_result_pushed_token:
  assumes "pushed_token p' c GST_PARSER_PENDING"
  shows "loop_result (dispatch_loop p' c False)"
proof -
  from assms have leaf: "leaf_ok p'" and top: "top_frame p' = Some (Token_frame [])"
    and st: "status p' = GST_PARSER_PENDING" and c: "\<not> (is_whitespace c \<or> is_closer c)"
    by (simp_all add: pushed_token_def)
  from token_state_ok [OF leaf top, of c] c
  have "done_result (token_state p' c)"
    by (auto simp: token_result_def done_result_def split: option.splits if_splits)
  from loop_result_done [OF this, of c] show ?thesis
    by (simp add: dispatch_loop_step [OF st top] del: dispatch_loop.simps)
qed

lemma loop_result_root:
  assumes "root_result r c GST_PARSER_PENDING"
  shows "loop_result (case r of None \<Rightarrow> None | Some (p2, d2) \<Rightarrow> dispatch_loop p2 c d2)"
proof (cases r)
  case None
  with assms show ?thesis by (simp add: root_result_def)
next
  case (Some a)
  obtain p' d where a: "a = (p', d)" by (cases a)
  show ?thesis
  proof (cases d)
    case True
    with assms Some a show ?thesis
      by (simp add: root_result_def loop_result_def dispatch_loop_stop del: dispatch_loop.simps)
  next
    case False
    with assms Some a have "pushed_token p' c GST_PARSER_PENDING" by (simp add: root_result_def)
    from loop_result_pushed_token [OF this] Some a False show ?thesis
      by (simp del: dispatch_loop.simps)
  qed
qed

lemma loop_result_open:
  assumes "open_ok p" and "count p < cap p \<or> is_closer c" and "status p = GST_PARSER_PENDING"
  shows "loop_result (dispatch_loop p c False)"
proof -
  from open_ok_top_frame [OF assms(1)] consider
    "top_frame p = Some Root_frame" | e a where "top_frame p = Some (Form_frame (Some e) a)"
    by auto
  then show ?thesis
  proof cases
    case 1
    from root_state_ok [OF assms(1,2)] assms(3)
    have "root_result (root_state p c) c GST_PARSER_PENDING" by simp
    from loop_result_root [OF this] show ?thesis
      by (simp add: dispatch_loop_step [OF assms(3) 1] del: dispatch_loop.simps)
  next
    case 2
    from form_state_ok [OF assms(1) 2 assms(2)] assms(3)
    have "root_result (form_state p c) c GST_PARSER_PENDING" by simp
    from loop_result_root [OF this] show ?thesis
      by (simp add: dispatch_loop_step [OF assms(3) 2] del: dispatch_loop.simps)
  qed
qed

lemma loop_result_token:
  assumes "leaf_ok p" and "top_frame p = Some (Token_frame b)" and "status p = GST_PARSER_PENDING"
  shows "loop_result (dispatch_loop p c False)"
proof (cases "token_state p c")
  case None
  with token_state_ok [OF assms(1,2), of c] show ?thesis by (simp add: token_result_def)
next
  case (Some a)
  obtain p' d where a: "a = (p', d)" by (cases a)
  note step = dispatch_loop_step [OF assms(3,2), of c]
  show ?thesis
  proof (cases d)
    case True
    with token_state_ok [OF assms(1,2), of c] Some a show ?thesis
      by (simp add: step token_result_def loop_result_def dispatch_loop_stop
          del: dispatch_loop.simps)
  next
    case False
    with token_state_ok [OF assms(1,2), of c] Some a
    have cl: "is_closer c" and ok: "open_ok p'" by (simp_all add: token_result_def)
    show ?thesis
    proof (cases "status p' = GST_PARSER_PENDING")
      case True
      from cl have "count p' < cap p' \<or> is_closer c" by simp
      from loop_result_open [OF ok this True] Some a False show ?thesis
        by (simp add: step del: dispatch_loop.simps)
    next
      case np: False
      with ok Some a False show ?thesis
        by (simp add: step loop_result_def dispatch_loop_stop open_ok_stack_ok
            del: dispatch_loop.simps)
    qed
  qed
qed

lemma stack_ok_index: "stack_ok p \<Longrightarrow> stack_ok (p\<lparr>index := i\<rparr>)"
  by (simp add: stack_ok_def open_ok_def leaf_ok_def)

lemma dispatch_char_keeps_stack:
  assumes "stack_ok p" and "count p < cap p"
  shows "\<exists>p' r. dispatch_char p c = Some (p', r) \<and> stack_ok p'"
proof -
  have "loop_result (dispatch_loop p c False)"
  proof (cases "status p = GST_PARSER_PENDING")
    case False
    with assms(1) show ?thesis by (simp add: dispatch_loop_stop loop_result_def del: dispatch_loop.simps)
  next
    case True
    from assms(1) consider "open_ok p" | "leaf_ok p" by (auto simp: stack_ok_def)
    then show ?thesis
    proof cases
      case 1
      from assms(2) have "count p < cap p \<or> is_closer c" by simp
      from loop_result_open [OF 1 this True] show ?thesis .
    next
      case 2
      from leaf_ok_top [OF 2] obtain f where top: "top_frame p = Some f" and leaf: "is_leaf (Some f)"
        by auto
      from leaf consider b st where "f = String_frame b st" | b where "f = Token_frame b"
        by (auto simp: is_leaf_def split: GstParseState.splits)
      then show ?thesis
      proof cases
        case 1
        with top have t: "top_frame p = Some (String_frame b st)" by simp
        from loop_result_done [OF string_state_ok [OF 2 t], of c c] show ?thesis
          by (simp add: dispatch_loop_step [OF True t] del: dispatch_loop.simps)
      next
        case 2
        with top have "top_frame p = Some (Token_frame b)" by simp
        from loop_result_token [OF \<open>leaf_ok p\<close> this True] show ?thesis .
      qed
    qed
  qed
  then obtain p1 d where "dispatch_loop p c False = Some (p1, d)" "stack_ok p1"
    by (auto simp: loop_result_def split: option.splits)
  then show ?thesis by (simp add: dispatch_char_def stack_ok_index)
qed

lemma is_open_form_not_root: "is_open_form x \<Longrightarrow> x \<noteq> Some Root_frame \<and> x \<noteq> None"
  by (auto simp: is_open_form_def split: option.splits)

lemma is_leaf_not_root: "is_leaf x \<Longrightarrow> x \<noteq> Some Root_frame \<and> x \<noteq> None"
  by (auto simp: is_leaf_def split: option.splits)

lemma stack_ok_root:
  assumes "stack_ok p"
  shows "0 < count p \<and> frame_at p 0 = Some Root_frame
    \<and> (\<forall>i. 0 < i \<and> i < count p \<longrightarrow> frame_at p i \<noteq> Some Root_frame \<and> frame_at p i \<noteq> None)"
proof -
  have open_part: "0 < n \<and> d ! 0 = Some Root_frame
      \<and> (\<forall>i. 0 < i \<and> i < n \<longrightarrow> d ! i \<noteq> Some Root_frame \<and> d ! i \<noteq> None)"
    if fo: "frames_open d n" for d n
  proof -
    have "d ! i \<noteq> Some Root_frame \<and> d ! i \<noteq> None" if "0 < i" "i < n" for i
    proof -
      from fo that have "is_open_form (d ! i)" by (simp add: frames_open_def list_all_iff)
      then show ?thesis by (rule is_open_form_not_root)
    qed
    with fo show ?thesis by (simp add: frames_open_def)
  qed
  from assms consider "open_ok p" | "leaf_ok p" by (auto simp: stack_ok_def)
  then show ?thesis
  proof cases
    case 1
    then have "frames_open (data p) (count p)" by (simp add: open_ok_def)
    from open_part [OF this] 1 show ?thesis
      by (auto simp: frame_at_def open_ok_def frames_open_def)
  next
    case 2
    then have fo: "frames_open (data p) (count p - 1)" and c: "1 < count p"
      and len: "count p \<le> length (data p)" and leaf: "is_leaf (data p ! (count p - 1))"
      by (auto simp: leaf_ok_def)
    have "frame_at p i \<noteq> Some Root_frame \<and> frame_at p i \<noteq> None" if "0 < i" "i < count p" for i
    proof (cases "i < count p - 1")
      case True
      with open_part [OF fo] that len show ?thesis by (auto simp: frame_at_def)
    next
      case False
      with that have "i = count p - 1" by simp
      with is_leaf_not_root [OF leaf] len c show ?thesis by (simp add: frame_at_def)
    qed
    with open_part [OF fo] c len show ?thesis by (auto simp: frame_at_def)
  qed
qed

lemma stack_ok_parser0: "stack_ok parser0"
  by (simp add: stack_ok_def open_ok_def frames_open_def parser0_def parser_with_def)

lemma loop_keeps_stack:
  "stack_ok p \<Longrightarrow> below_capacity p s \<Longrightarrow>
   \<exists>p' n. parse_cstring_loop p s k = Some (p', n) \<and> stack_ok p'"
proof (induction s arbitrary: p k)
  case Nil
  then show ?case by simp
next
  case (Cons c s)
  show ?case
  proof (cases "status p = GST_PARSER_PENDING \<and> c \<noteq> CHR 0x00")
    case True
    with Cons.prems(2) have below: "count p < cap p" by simp
    from dispatch_char_keeps_stack [OF Cons.prems(1) below, of c] obtain p1 r where
      step: "dispatch_char p c = Some (p1, r)" and ok: "stack_ok p1" by auto
    with True Cons.prems(2) have "below_capacity p1 s" by simp
    from Cons.IH [OF ok this, of "k + 1"] True step show ?thesis by simp
  next
    case False
    with Cons.prems(1) show ?thesis by auto
  qed
qed

lemma stack_ok_status: "stack_ok (p\<lparr>status := s\<rparr>) = stack_ok p"
  by (simp add: stack_ok_def open_ok_def leaf_ok_def)

lemma gst_parse_cstring_keeps_stack:
  assumes "stack_ok p" and "below_capacity (p\<lparr>status := GST_PARSER_PENDING\<rparr>) s"
  shows "\<exists>p' n. gst_parse_cstring p s = Some (p', n) \<and> stack_ok p'"
  unfolding gst_parse_cstring_def
  using assms by (intro loop_keeps_stack) (simp_all add: stack_ok_status)

lemma below_capacity_examples:
  "below_capacity parser0 ''(a (b [c {d 1.5}]))'' \<and> \<not> below_capacity parser0 ''((((((((((''"
  by code_simp

subsection \<open>One byte through the dispatcher\<close>

lemma parser_append_status:
  "parser_append q x = Some p' \<Longrightarrow> status q \<noteq> GST_PARSER_PENDING \<Longrightarrow>
   status p' \<noteq> GST_PARSER_PENDING"
  by (auto simp: parser_append_def parser_peek_def p_error_def frame_set_def
      split: if_splits option.splits GstParseState.splits)

lemma dispatch_char_string:
  assumes "status p = GST_PARSER_PENDING" and "top_frame p = Some (String_frame b st)"
  shows "dispatch_char p c =
     (case string_state p c of
        None \<Rightarrow> None
      | Some (p2, d) \<Rightarrow> Some (p2\<lparr>index := index p2 + 1\<rparr>, False))"
proof (cases "string_state p c")
  case None
  then show ?thesis
    by (simp add: dispatch_char_def dispatch_loop_step [OF assms] del: dispatch_loop.simps)
next
  case (Some a)
  obtain p2 d where a: "a = (p2, d)" by (cases a)
  with Some have "d" by (auto dest: string_state_done)
  with Some a show ?thesis
    by (simp add: dispatch_char_def dispatch_loop_step [OF assms] dispatch_loop_stop
        del: dispatch_loop.simps)
qed

lemma dispatch_char_token_error:
  assumes "status p = GST_PARSER_PENDING" and "top_frame p = Some (Token_frame (b # bs))"
    and "is_whitespace c \<or> is_closer c"
    and "read_number (b # bs) False = None" and "is_digit b"
  shows "dispatch_char p c =
     (case parser_append
             (p_error (p\<lparr>count := count p - 1\<rparr>) ''Symbols cannot start with digits.'')
             GST_NIL of
        None \<Rightarrow> None
      | Some p' \<Rightarrow> Some (p'\<lparr>index := index p' + 1\<rparr>, is_closer c))"
proof -
  let ?q = "p_error (p\<lparr>count := count p - 1\<rparr>) ''Symbols cannot start with digits.''"
  have ts: "token_state p c =
      (case parser_append ?q GST_NIL of None \<Rightarrow> None | Some p' \<Rightarrow> Some (p', \<not> is_closer c))"
    using token_state_close [OF assms(2,3)] build_token_digit_error [OF assms(4,5)]
    by (simp del: read_number.simps)
  show ?thesis
  proof (cases "parser_append ?q GST_NIL")
    case None
    with ts show ?thesis
      by (simp add: dispatch_char_def dispatch_loop_step [OF assms(1,2)] del: dispatch_loop.simps)
  next
    case (Some p')
    have "status ?q \<noteq> GST_PARSER_PENDING" by (simp add: p_error_def)
    from parser_append_status [OF Some this] have "status p' \<noteq> GST_PARSER_PENDING" .
    with ts Some show ?thesis
      by (simp add: dispatch_char_def dispatch_loop_step [OF assms(1,2)] dispatch_loop_stop
          del: dispatch_loop.simps)
  qed
qed

section \<open>The claims\<close>

text \<open>
  C1. For a NUL-free byte sequence, feeding it to a fresh parser in one call of
  \<^verbatim>\<open>gst_parse_cstring\<close> and feeding it in chunks, split at any byte boundaries, end
  in the same parser (status, value, error message, stack, index) and in the same total
  byte count. The chunks are fed as the lifecycle asks: the next one only while the
  parser is pending.
\<close>

theorem chunk_boundary_invariant:
  assumes "gst_parser = Some p"
    and "\<forall>chunk \<in> set chunks. CHR 0x00 \<notin> set chunk"
  shows "feed_chunks p chunks = gst_parse_cstring p (concat chunks)"
proof -
  from assms(1) have "p = parser0" by (simp add: gst_parser_eq)
  then have "status p = GST_PARSER_PENDING" by (simp add: parser0_def parser_with_def)
  with assms(2) show ?thesis by (rule feed_chunks_concat)
qed

theorem chunk_boundary_invariant_witness:
  "feed_chunks parser0 [''(1'', ''2 '', ''3)''] = gst_parse_cstring parser0 ''(12 3)''
   \<and> gst_parse_cstring parser0 ''(12 3)'' =
       Some (parser0
              \<lparr>data := [Some Root_frame,
                        Some (Form_frame (Some (CHR '')'')) [GST_NUMBER 12, GST_NUMBER 3]),
                        Some (Token_frame ''3''), None, None, None, None, None, None, None],
               index := 6, status := GST_PARSER_FULL,
               pvalue := GST_ARRAY [GST_NUMBER 12, GST_NUMBER 3]\<rparr>, 6)"
proof -
  have "feed_chunks parser0 [''(1'', ''2 '', ''3)''] =
      gst_parse_cstring parser0 (concat [''(1'', ''2 '', ''3)''])"
    using chunk_boundary_invariant [OF gst_parser_eq, of "[''(1'', ''2 '', ''3)'']"] by simp
  moreover have "gst_parse_cstring parser0 ''(12 3)'' =
       Some (parser0
              \<lparr>data := [Some Root_frame,
                        Some (Form_frame (Some (CHR '')'')) [GST_NUMBER 12, GST_NUMBER 3]),
                        Some (Token_frame ''3''), None, None, None, None, None, None, None],
               index := 6, status := GST_PARSER_FULL,
               pvalue := GST_ARRAY [GST_NUMBER 12, GST_NUMBER 3]\<rparr>, 6)"
    by code_simp
  ultimately show ?thesis by simp
qed

text \<open>
  C2, at the failing input. The claim: \<^verbatim>\<open>parser_push\<close> adds one frame and leaves every
  frame already on the stack as it was, also when the frame count has reached the
  capacity. After nine opening parentheses the parser holds ten frames, its capacity.
  The next push allocates a new frame array and copies nothing into it: the new frame
  is there at index 10, and none of the ten frames below it is.
\<close>

theorem parser_push_at_capacity_loses_frames:
  "gst_parse_cstring parser0 ''((((((((('' = Some (nine_open, 9)
   \<and> count nine_open = cap nine_open
   \<and> map (frame_at nine_open) [0..<10] =
       Some Root_frame # replicate 9 (Some (Form_frame (Some (CHR '')'')) []))
   \<and> parser_push nine_open PTYPE_FORM (CHR ''('') = Some pushed_at_capacity
   \<and> count pushed_at_capacity = 11
   \<and> frame_at pushed_at_capacity 10 = Some (Form_frame (Some (CHR '')'')) [])
   \<and> map (frame_at pushed_at_capacity) [0..<10] = replicate 10 None"
  by code_simp

text \<open>
  C3, as claimed: every byte range without a digit makes \<^verbatim>\<open>read_number\<close> fail. The
  code has no count of digits: it fails only when nothing follows the sign or a byte
  is none of digit, \<^verbatim>\<open>.\<close>, \<^verbatim>\<open>e\<close>, \<^verbatim>\<open>E\<close>. The ranges \<^verbatim>\<open>.\<close> and \<^verbatim>\<open>+.\<close> hold no
  digit and are read as the number 0, so the token \<^verbatim>\<open>.\<close> is a Number, not a symbol.
\<close>

theorem read_number_no_digit_counterexample:
  "list_all (\<lambda>c. \<not> is_digit c) ''.'' \<and> read_number ''.'' False = Some 0
   \<and> list_all (\<lambda>c. \<not> is_digit c) ''+.'' \<and> read_number ''+.'' False = Some 0
   \<and> build_token parser0 ''.'' = (parser0, GST_NUMBER 0)"
  by (simp add: is_digit_def build_token_unfold)

text \<open>
  C3, amended. On a byte range without a digit, \<^verbatim>\<open>read_number\<close> fails in force-integer
  mode; otherwise it fails unless the bytes after the optional sign are one or more
  \<^verbatim>\<open>.\<close>, which it reads as 0. Where it fails on such a token, \<^verbatim>\<open>build_token\<close> raises no
  parser error: the token is classified as nil, a boolean or a symbol string.
\<close>

theorem read_number_no_digit:
  assumes "\<forall>c \<in> set s. \<not> is_digit c"
  shows "read_number s True = None
    \<and> read_number s False =
        (if after_sign s \<noteq> [] \<and> (\<forall>c \<in> set (after_sign s). c = CHR ''.'') then Some 0
         else None)
    \<and> (s \<noteq> [] \<and> read_number s False = None \<longrightarrow>
         build_token p s =
           (p, if s = ''nil'' then GST_NIL
               else if s = ''false'' then GST_BOOLEAN False
               else if s = ''true'' then GST_BOOLEAN True
               else GST_STRING s))"
proof -
  have "build_token p s =
           (p, if s = ''nil'' then GST_NIL
               else if s = ''false'' then GST_BOOLEAN False
               else if s = ''true'' then GST_BOOLEAN True
               else GST_STRING s)"
    if "s \<noteq> []" and "read_number s False = None"
  proof -
    from that(1) assms have "\<not> is_digit (hd s)" by (cases s) auto
    with that show ?thesis by (simp add: build_token_unfold del: read_number.simps)
  qed
  with read_number_forced_no_digits [OF assms] read_number_digitless [OF assms]
  show ?thesis by simp
qed

theorem read_number_no_digit_witness:
  "read_number ''+'' True = None \<and> read_number ''+'' False = None
   \<and> build_token parser0 ''+'' = (parser0, GST_STRING ''+'')
   \<and> read_number ''-.'' False = Some 0"
  using read_number_no_digit [of "''+''" parser0] read_number_no_digit [of "''-.''" parser0]
  by (simp add: is_digit_def after_sign_def)

text \<open>
  C4, as claimed: once the status is Complete or Error, a later feed call processes no
  byte and changes nothing. The code does otherwise: \<^verbatim>\<open>gst_parse_cstring\<close> begins with
  \<^verbatim>\<open>p->status = GST_PARSER_PENDING\<close>. A parser that completed on \<^verbatim>\<open>1\<close> reads a
  second value from the next call, and a parser that failed on \<^verbatim>\<open>)\<close> completes on the
  next call, its old error message still in place.
\<close>

theorem feed_after_outcome_counterexample:
  "gst_parse_cstring parser0 ''1 '' =
     Some ((parser_with [Root_frame, Token_frame ''1''])
             \<lparr>count := 1, index := 2, status := GST_PARSER_FULL, pvalue := GST_NUMBER 1\<rparr>, 2)
   \<and> gst_parse_cstring
        ((parser_with [Root_frame, Token_frame ''1''])
           \<lparr>count := 1, index := 2, status := GST_PARSER_FULL, pvalue := GST_NUMBER 1\<rparr>) ''2 '' =
     Some ((parser_with [Root_frame, Token_frame ''2''])
             \<lparr>count := 1, index := 4, status := GST_PARSER_FULL, pvalue := GST_NUMBER 2\<rparr>, 2)
   \<and> gst_parse_cstring parser0 '')'' =
     Some (parser0\<lparr>index := 1, error := Some ''Unexpected closing delimiter'',
                    status := GST_PARSER_ERROR\<rparr>, 1)
   \<and> gst_parse_cstring
        (parser0\<lparr>index := 1, error := Some ''Unexpected closing delimiter'',
                  status := GST_PARSER_ERROR\<rparr>) ''1 '' =
     Some ((parser_with [Root_frame, Token_frame ''1''])
             \<lparr>count := 1, index := 3, error := Some ''Unexpected closing delimiter'',
              status := GST_PARSER_FULL, pvalue := GST_NUMBER 1\<rparr>, 2)"
  by code_simp

text \<open>
  C4, amended. Within one feed call the outcome is final: once the status has left
  Pending, the call dispatches no further byte, whatever follows in its input. Across
  calls it is not: a feed call treats a Complete or Error parser exactly as the same
  parser with status Pending, and on an empty input it returns 0 and changes the status
  to Pending and nothing else.
\<close>

theorem outcome_final_within_call:
  "(CHR 0x00 \<notin> set a \<and> gst_parse_cstring p a = Some (p1, n) \<and> status p1 \<noteq> GST_PARSER_PENDING
      \<longrightarrow> gst_parse_cstring p (a @ b) = Some (p1, n))
   \<and> gst_parse_cstring p s = gst_parse_cstring (p\<lparr>status := GST_PARSER_PENDING\<rparr>) s
   \<and> gst_parse_cstring p [] = Some (p\<lparr>status := GST_PARSER_PENDING\<rparr>, 0)"
  by (simp add: gst_parse_cstring_def loop_append)

theorem outcome_final_within_call_witness:
  "gst_parse_cstring parser0 ''1 2 '' =
     Some ((parser_with [Root_frame, Token_frame ''1''])
             \<lparr>count := 1, index := 2, status := GST_PARSER_FULL, pvalue := GST_NUMBER 1\<rparr>, 2)"
proof -
  let ?p1 = "(parser_with [Root_frame, Token_frame ''1''])
             \<lparr>count := 1, index := 2, status := GST_PARSER_FULL, pvalue := GST_NUMBER 1\<rparr>"
  have ev: "gst_parse_cstring parser0 ''1 '' = Some (?p1, 2)"
    by code_simp
  have nul: "CHR 0x00 \<notin> set ''1 ''" and st: "status ?p1 \<noteq> GST_PARSER_PENDING"
    by simp_all
  from outcome_final_within_call [of "''1 ''" parser0 ?p1 2 "''2 ''", THEN conjunct1] nul ev st
  show ?thesis by simp
qed

text \<open>
  C5. \<^verbatim>\<open>build_token\<close> classifies the bytes of a token in this order: a Number if
  \<^verbatim>\<open>read_number\<close> accepts them; else Nil, Boolean(false), Boolean(true) if they are
  exactly \<^verbatim>\<open>nil\<close>, \<^verbatim>\<open>false\<close>, \<^verbatim>\<open>true\<close>; else the error
  \<^verbatim>\<open>Symbols cannot start with digits.\<close> if the first byte is a digit; else the bytes as a
  String. So \<^verbatim>\<open>truex\<close> is the String \<^verbatim>\<open>truex\<close> and \<^verbatim>\<open>1abc\<close> is the digit error.
\<close>

theorem build_token_precedence:
  assumes "buf \<noteq> []"
  shows "build_token p buf =
      (case read_number buf False of
         Some number \<Rightarrow> (p, GST_NUMBER number)
       | None \<Rightarrow>
           if buf = ''nil'' then (p, GST_NIL)
           else if buf = ''false'' then (p, GST_BOOLEAN False)
           else if buf = ''true'' then (p, GST_BOOLEAN True)
           else if is_digit (hd buf) then (p_error p ''Symbols cannot start with digits.'', GST_NIL)
           else (p, GST_STRING buf))
    \<and> build_token p ''truex'' = (p, GST_STRING ''truex'')
    \<and> build_token p ''1abc'' = (p_error p ''Symbols cannot start with digits.'', GST_NIL)
    \<and> build_token p ''nil'' = (p, GST_NIL)
    \<and> build_token p ''false'' = (p, GST_BOOLEAN False)
    \<and> build_token p ''true'' = (p, GST_BOOLEAN True)
    \<and> build_token p ''12'' = (p, GST_NUMBER 12)"
proof -
  from assms have "build_token p buf =
      (case read_number buf False of
         Some number \<Rightarrow> (p, GST_NUMBER number)
       | None \<Rightarrow>
           if buf = ''nil'' then (p, GST_NIL)
           else if buf = ''false'' then (p, GST_BOOLEAN False)
           else if buf = ''true'' then (p, GST_BOOLEAN True)
           else if is_digit (hd buf) then (p_error p ''Symbols cannot start with digits.'', GST_NIL)
           else (p, GST_STRING buf))"
    by (simp add: build_token_unfold del: read_number.simps)
  moreover have "build_token p ''truex'' = (p, GST_STRING ''truex'')"
    "build_token p ''1abc'' = (p_error p ''Symbols cannot start with digits.'', GST_NIL)"
    "build_token p ''nil'' = (p, GST_NIL)"
    "build_token p ''false'' = (p, GST_BOOLEAN False)"
    "build_token p ''true'' = (p, GST_BOOLEAN True)"
    "build_token p ''12'' = (p, GST_NUMBER 12)"
    by (simp_all add: build_token_unfold is_digit_def)
  ultimately show ?thesis by (simp del: read_number.simps)
qed

theorem build_token_precedence_witness:
  "build_token parser0 ''-1.5'' = (parser0, GST_NUMBER (- (3 / 2)))
   \<and> build_token parser0 ''9lives'' =
       (parser0\<lparr>error := Some ''Symbols cannot start with digits.'', status := GST_PARSER_ERROR\<rparr>,
        GST_NIL)
   \<and> build_token parser0 ''nill'' = (parser0, GST_STRING ''nill'')"
  using build_token_precedence [of "''-1.5''" parser0]
    build_token_precedence [of "''9lives''" parser0]
    build_token_precedence [of "''nill''" parser0]
  by (simp add: is_digit_def p_error_def)



text \<open>
  C7. When the top frame is a string frame in its base state and the byte is an
  unescaped double quote, \<^verbatim>\<open>string_state\<close> pops the frame and appends to the frame below
  the two-element sequence of the string \<^verbatim>\<open>quote\<close> and the string of the accumulated
  bytes: it becomes the last item of a form frame, or the parser's value, with status
  Complete, on the root frame. \<^verbatim>\<open>dispatch_char\<close> on a pending parser does just this
  and counts the byte. The input \<^verbatim>\<open>"ab\ncd"\<close>, with the two-byte escape, yields the
  sequence of \<^verbatim>\<open>quote\<close> and the five bytes a, b, newline, c, d.
\<close>

theorem string_close_quote_form:
  assumes "top_frame p = Some (String_frame buf STRING_STATE_BASE)"
  shows "string_state p (CHR 0x22) =
      (case parser_append (p\<lparr>count := count p - 1\<rparr>)
              (GST_ARRAY [GST_STRING ''quote'', GST_STRING buf]) of
         None \<Rightarrow> None
       | Some p' \<Rightarrow> Some (p', True))
    \<and> (\<forall>d items. top_frame (p\<lparr>count := count p - 1\<rparr>) = Some (Form_frame d items) \<longrightarrow>
          string_state p (CHR 0x22) =
            Some (p\<lparr>count := count p - 1,
                    data := (data p)[count p - 2 :=
                      Some (Form_frame d
                        (items @ [GST_ARRAY [GST_STRING ''quote'', GST_STRING buf]]))]\<rparr>,
                  True))
    \<and> (top_frame (p\<lparr>count := count p - 1\<rparr>) = Some Root_frame \<longrightarrow>
          string_state p (CHR 0x22) =
            Some (p\<lparr>count := count p - 1,
                    pvalue := GST_ARRAY [GST_STRING ''quote'', GST_STRING buf],
                    status := GST_PARSER_FULL\<rparr>, True))
    \<and> (status p = GST_PARSER_PENDING \<longrightarrow>
          dispatch_char p (CHR 0x22) =
            (case parser_append (p\<lparr>count := count p - 1\<rparr>)
                    (GST_ARRAY [GST_STRING ''quote'', GST_STRING buf]) of
               None \<Rightarrow> None
             | Some p' \<Rightarrow> Some (p'\<lparr>index := index p' + 1\<rparr>, False)))
    \<and> gst_parse_cstring parser0
          [CHR 0x22, CHR ''a'', CHR ''b'', CHR 0x5C, CHR ''n'', CHR ''c'', CHR ''d'', CHR 0x22] =
        Some ((parser_with
                 [Root_frame,
                  String_frame [CHR ''a'', CHR ''b'', CHR 0x0A, CHR ''c'', CHR ''d'']
                    STRING_STATE_BASE])
                \<lparr>count := 1, index := 8, status := GST_PARSER_FULL,
                 pvalue := GST_ARRAY [GST_STRING ''quote'',
                   GST_STRING [CHR ''a'', CHR ''b'', CHR 0x0A, CHR ''c'', CHR ''d'']]\<rparr>, 8)"
proof -
  note close = string_state_close [OF assms]
  have disp: "status p = GST_PARSER_PENDING \<longrightarrow>
          dispatch_char p (CHR 0x22) =
            (case parser_append (p\<lparr>count := count p - 1\<rparr>)
                    (GST_ARRAY [GST_STRING ''quote'', GST_STRING buf]) of
               None \<Rightarrow> None
             | Some p' \<Rightarrow> Some (p'\<lparr>index := index p' + 1\<rparr>, False))"
    by (auto simp: dispatch_char_string [OF _ assms] close split: option.splits)
  have form: "\<forall>d items. top_frame (p\<lparr>count := count p - 1\<rparr>) = Some (Form_frame d items) \<longrightarrow>
          string_state p (CHR 0x22) =
            Some (p\<lparr>count := count p - 1,
                    data := (data p)[count p - 2 :=
                      Some (Form_frame d
                        (items @ [GST_ARRAY [GST_STRING ''quote'', GST_STRING buf]]))]\<rparr>,
                  True)"
  proof (intro allI impI)
    fix d items
    assume "top_frame (p\<lparr>count := count p - 1\<rparr>) = Some (Form_frame d items)"
    from append_form [OF this, of "GST_ARRAY [GST_STRING ''quote'', GST_STRING buf]"]
    show "string_state p (CHR 0x22) =
            Some (p\<lparr>count := count p - 1,
                    data := (data p)[count p - 2 :=
                      Some (Form_frame d
                        (items @ [GST_ARRAY [GST_STRING ''quote'', GST_STRING buf]]))]\<rparr>,
                  True)"
      by (simp add: close numeral_2_eq_2)
  qed
  have root: "top_frame (p\<lparr>count := count p - 1\<rparr>) = Some Root_frame \<longrightarrow>
          string_state p (CHR 0x22) =
            Some (p\<lparr>count := count p - 1,
                    pvalue := GST_ARRAY [GST_STRING ''quote'', GST_STRING buf],
                    status := GST_PARSER_FULL\<rparr>, True)"
    by (auto simp: close append_root)
  have ex: "gst_parse_cstring parser0
          [CHR 0x22, CHR ''a'', CHR ''b'', CHR 0x5C, CHR ''n'', CHR ''c'', CHR ''d'', CHR 0x22] =
        Some ((parser_with
                 [Root_frame,
                  String_frame [CHR ''a'', CHR ''b'', CHR 0x0A, CHR ''c'', CHR ''d'']
                    STRING_STATE_BASE])
                \<lparr>count := 1, index := 8, status := GST_PARSER_FULL,
                 pvalue := GST_ARRAY [GST_STRING ''quote'',
                   GST_STRING [CHR ''a'', CHR ''b'', CHR 0x0A, CHR ''c'', CHR ''d'']]\<rparr>, 8)"
    by code_simp
  from close form root disp ex show ?thesis by blast
qed

theorem string_close_quote_form_witness:
  "string_state (parser_with [Root_frame, Form_frame (Some (CHR '')'')) [GST_NIL],
                              String_frame ''ab'' STRING_STATE_BASE]) (CHR 0x22) =
     Some ((parser_with
              [Root_frame,
               Form_frame (Some (CHR '')''))
                 [GST_NIL, GST_ARRAY [GST_STRING ''quote'', GST_STRING ''ab'']],
               String_frame ''ab'' STRING_STATE_BASE])\<lparr>count := 2\<rparr>, True)"
proof -
  let ?p = "parser_with [Root_frame, Form_frame (Some (CHR '')'')) [GST_NIL],
                         String_frame ''ab'' STRING_STATE_BASE]"
  have top: "top_frame ?p = Some (String_frame ''ab'' STRING_STATE_BASE)"
    by (simp add: top_frame_def parser_with_def frame_at_def)
  have below: "top_frame (?p\<lparr>count := count ?p - 1\<rparr>) = Some (Form_frame (Some (CHR '')'')) [GST_NIL])"
    by (simp add: top_frame_def parser_with_def frame_at_def)
  from string_close_quote_form [OF top] below
  have "string_state ?p (CHR 0x22) =
            Some (?p\<lparr>count := count ?p - 1,
                    data := (data ?p)[count ?p - 2 :=
                      Some (Form_frame (Some (CHR '')''))
                        ([GST_NIL] @ [GST_ARRAY [GST_STRING ''quote'', GST_STRING ''ab'']]))]\<rparr>,
                  True)"
    by blast
  then show ?thesis by (simp add: parser_with_def)
qed

text \<open>
  C8, at the failing input. The claim: while the status is Pending the stack holds
  exactly one root frame, at index 0. After ten opening parentheses the status is
  Pending and the stack has eleven frames, but the frame array is the one the push at
  capacity allocated: index 0 holds no frame, and no slot holds the root frame. Closing
  the innermost form then reads a slot that was never written.
\<close>

theorem root_frame_lost_at_depth_ten:
  "gst_parse_cstring parser0 ''(((((((((('' = Some (pushed_at_capacity\<lparr>index := 10\<rparr>, 10)
   \<and> status (pushed_at_capacity\<lparr>index := 10\<rparr>) = GST_PARSER_PENDING
   \<and> count (pushed_at_capacity\<lparr>index := 10\<rparr>) = 11
   \<and> frame_at (pushed_at_capacity\<lparr>index := 10\<rparr>) 0 = None
   \<and> Some Root_frame \<notin> set (data (pushed_at_capacity\<lparr>index := 10\<rparr>))
   \<and> gst_parse_cstring parser0 ''(((((((((()'' = None"
  by code_simp

text \<open>
  C9. When the top frame is a token frame, the byte ends the token, and the token is
  one that \<^verbatim>\<open>build_token\<close> rejects with \<^verbatim>\<open>Symbols cannot start with digits.\<close>, then
  \<^verbatim>\<open>token_state\<close> has popped the token frame and still appends the value Nil to the
  frame below: Nil becomes the last item of a form frame (status Error), or the
  parser's value on the root frame (where the append sets the status to Complete).
  The resulting parser differs from the one before the byte, and \<^verbatim>\<open>dispatch_char\<close> on a
  pending parser ends with it.
\<close>

theorem digit_error_appends_nil:
  assumes "top_frame p = Some (Token_frame (b # bs))"
    and "is_whitespace c \<or> is_closer c"
    and "read_number (b # bs) False = None"
    and "is_digit b"
  shows "token_state p c =
      (case parser_append
              (p_error (p\<lparr>count := count p - 1\<rparr>) ''Symbols cannot start with digits.'')
              GST_NIL of
         None \<Rightarrow> None
       | Some p' \<Rightarrow> Some (p', \<not> is_closer c))
    \<and> (\<forall>d items. top_frame (p\<lparr>count := count p - 1\<rparr>) = Some (Form_frame d items) \<longrightarrow>
          token_state p c =
            Some (p\<lparr>count := count p - 1,
                    error := Some ''Symbols cannot start with digits.'',
                    status := GST_PARSER_ERROR,
                    data := (data p)[count p - 2 := Some (Form_frame d (items @ [GST_NIL]))]\<rparr>,
                  \<not> is_closer c))
    \<and> (top_frame (p\<lparr>count := count p - 1\<rparr>) = Some Root_frame \<longrightarrow>
          token_state p c =
            Some (p\<lparr>count := count p - 1,
                    error := Some ''Symbols cannot start with digits.'',
                    pvalue := GST_NIL, status := GST_PARSER_FULL\<rparr>, \<not> is_closer c))
    \<and> (\<forall>p' r. token_state p c = Some (p', r) \<longrightarrow> p' \<noteq> p)
    \<and> (status p = GST_PARSER_PENDING \<longrightarrow>
          dispatch_char p c =
            (case parser_append
                    (p_error (p\<lparr>count := count p - 1\<rparr>) ''Symbols cannot start with digits.'')
                    GST_NIL of
               None \<Rightarrow> None
             | Some p' \<Rightarrow> Some (p'\<lparr>index := index p' + 1\<rparr>, is_closer c)))"
proof -
  let ?q = "p_error (p\<lparr>count := count p - 1\<rparr>) ''Symbols cannot start with digits.''"
  have disp: "status p = GST_PARSER_PENDING \<longrightarrow>
          dispatch_char p c =
            (case parser_append ?q GST_NIL of
               None \<Rightarrow> None
             | Some p' \<Rightarrow> Some (p'\<lparr>index := index p' + 1\<rparr>, is_closer c))"
    using dispatch_char_token_error [OF _ assms] by blast
  have close: "token_state p c =
      (case parser_append ?q GST_NIL of None \<Rightarrow> None | Some p' \<Rightarrow> Some (p', \<not> is_closer c))"
    using token_state_close [OF assms(1,2)] build_token_digit_error [OF assms(3,4)]
    by (simp del: read_number.simps)
  have q: "?q = (p\<lparr>error := Some ''Symbols cannot start with digits.'',
                   status := GST_PARSER_ERROR\<rparr>)\<lparr>count := count p - 1\<rparr>"
    by (simp add: p_error_def)
  have form: "\<forall>d items. top_frame (p\<lparr>count := count p - 1\<rparr>) = Some (Form_frame d items) \<longrightarrow>
          token_state p c =
            Some (p\<lparr>count := count p - 1,
                    error := Some ''Symbols cannot start with digits.'',
                    status := GST_PARSER_ERROR,
                    data := (data p)[count p - 2 := Some (Form_frame d (items @ [GST_NIL]))]\<rparr>,
                  \<not> is_closer c)"
  proof (intro allI impI)
    fix d items
    assume "top_frame (p\<lparr>count := count p - 1\<rparr>) = Some (Form_frame d items)"
    then have "top_frame ?q = Some (Form_frame d items)" by simp
    from append_form [OF this, of GST_NIL] show "token_state p c =
            Some (p\<lparr>count := count p - 1,
                    error := Some ''Symbols cannot start with digits.'',
                    status := GST_PARSER_ERROR,
                    data := (data p)[count p - 2 := Some (Form_frame d (items @ [GST_NIL]))]\<rparr>,
                  \<not> is_closer c)"
      by (simp add: close p_error_def numeral_2_eq_2)
  qed
  have root: "top_frame (p\<lparr>count := count p - 1\<rparr>) = Some Root_frame \<longrightarrow>
          token_state p c =
            Some (p\<lparr>count := count p - 1,
                    error := Some ''Symbols cannot start with digits.'',
                    pvalue := GST_NIL, status := GST_PARSER_FULL\<rparr>, \<not> is_closer c)"
  proof
    assume "top_frame (p\<lparr>count := count p - 1\<rparr>) = Some Root_frame"
    then have "top_frame ?q = Some Root_frame" by simp
    from append_root [OF this, of GST_NIL] show "token_state p c =
            Some (p\<lparr>count := count p - 1,
                    error := Some ''Symbols cannot start with digits.'',
                    pvalue := GST_NIL, status := GST_PARSER_FULL\<rparr>, \<not> is_closer c)"
      by (simp add: close p_error_def)
  qed
  have changed: "\<forall>p' r. token_state p c = Some (p', r) \<longrightarrow> p' \<noteq> p"
  proof (intro allI impI)
    fix p' r
    assume "token_state p c = Some (p', r)"
    with close have "parser_append ?q GST_NIL = Some p'" by (auto split: option.splits)
    then have "count p' = count ?q" by (rule parser_append_count)
    moreover from top_frame_peek [OF assms(1)] have "0 < count p" by simp
    ultimately have "count p' \<noteq> count p" by (simp add: p_error_def)
    then show "p' \<noteq> p" by auto
  qed
  from close form root changed disp show ?thesis by blast
qed

theorem digit_error_appends_nil_witness:
  "token_state (parser_with [Root_frame, Form_frame (Some (CHR '')'')) [], Token_frame ''1abc''])
       (CHR '' '') =
     Some ((parser_with [Root_frame, Form_frame (Some (CHR '')'')) [GST_NIL], Token_frame ''1abc''])
             \<lparr>count := 2, error := Some ''Symbols cannot start with digits.'',
              status := GST_PARSER_ERROR\<rparr>, True)"
proof -
  let ?p = "parser_with [Root_frame, Form_frame (Some (CHR '')'')) [], Token_frame ''1abc'']"
  have top: "top_frame ?p = Some (Token_frame (CHR ''1'' # ''abc''))"
    by (simp add: top_frame_def parser_with_def frame_at_def)
  have below: "top_frame (?p\<lparr>count := count ?p - 1\<rparr>) = Some (Form_frame (Some (CHR '')'')) [])"
    by (simp add: top_frame_def parser_with_def frame_at_def)
  have ws: "is_whitespace (CHR '' '') \<or> is_closer (CHR '' '')" by (simp add: is_whitespace_def)
  have rn: "read_number (CHR ''1'' # ''abc'') False = None" by simp
  have dg: "is_digit (CHR ''1'')" by (simp add: is_digit_def)
  from digit_error_appends_nil [OF top ws rn dg] below
  have "token_state ?p (CHR '' '') =
            Some (?p\<lparr>count := count ?p - 1,
                    error := Some ''Symbols cannot start with digits.'',
                    status := GST_PARSER_ERROR,
                    data := (data ?p)[count ?p - 2 :=
                      Some (Form_frame (Some (CHR '')'')) ([] @ [GST_NIL]))]\<rparr>,
                  \<not> is_closer (CHR '' ''))"
    by blast
  then show ?thesis by (simp add: parser_with_def is_closer_def)
qed

text \<open>
  C10. The whitespace class of the dispatcher contains the NUL byte, but
  \<^verbatim>\<open>gst_parse_cstring\<close> stops at the first NUL: its result is that of the bytes before
  the first NUL, a call on a string that starts with NUL dispatches nothing and returns
  0 (so an open token frame stays open), and the returned count never exceeds the number
  of bytes before the first NUL.
\<close>

theorem nul_never_consumed:
  "is_whitespace (CHR 0x00)
   \<and> gst_parse_cstring p s = gst_parse_cstring p (takeWhile (\<lambda>c. c \<noteq> CHR 0x00) s)
   \<and> gst_parse_cstring p (CHR 0x00 # s) = Some (p\<lparr>status := GST_PARSER_PENDING\<rparr>, 0)
   \<and> (\<forall>p' n. gst_parse_cstring p s = Some (p', n) \<longrightarrow>
         n \<le> length (takeWhile (\<lambda>c. c \<noteq> CHR 0x00) s))"
proof -
  have "gst_parse_cstring p s = gst_parse_cstring p (takeWhile (\<lambda>c. c \<noteq> CHR 0x00) s)"
    unfolding gst_parse_cstring_def by (rule loop_takeWhile)
  moreover have "\<forall>p' n. gst_parse_cstring p s = Some (p', n) \<longrightarrow>
         n \<le> length (takeWhile (\<lambda>c. c \<noteq> CHR 0x00) s)"
    unfolding gst_parse_cstring_def by (auto dest: loop_count)
  ultimately show ?thesis by (simp add: is_whitespace_def gst_parse_cstring_def)
qed

theorem nul_never_consumed_witness:
  "gst_parse_cstring (parser_with [Root_frame, Token_frame ''ab''])
       [CHR ''c'', CHR 0x00, CHR ''d'', CHR '' ''] =
     Some ((parser_with [Root_frame, Token_frame ''abc''])\<lparr>index := 1\<rparr>, 1)
   \<and> 1 \<le> length (takeWhile (\<lambda>c. c \<noteq> CHR 0x00) [CHR ''c'', CHR 0x00, CHR ''d'', CHR '' ''])"
proof -
  have "gst_parse_cstring (parser_with [Root_frame, Token_frame ''ab'']) ''c'' =
     Some ((parser_with [Root_frame, Token_frame ''abc''])\<lparr>index := 1\<rparr>, 1)"
    by code_simp
  then show ?thesis
    using nul_never_consumed [of "parser_with [Root_frame, Token_frame ''ab'']"
        "[CHR ''c'', CHR 0x00, CHR ''d'', CHR '' '']"]
    by simp
qed

end
